theory Spec2Isabelle
  imports Complex_Main "HOL-Library.Word" "HOL-Library.Multiset"
begin

section \<open>Samples of float64 values: data model\<close>

text \<open>
  The development embeds \<^verbatim>\<open>sample_float64.go\<close>. Conventions of the embedding:
  \<^item> a \<^verbatim>\<open>float64\<close> that holds a sampled value is a \<^typ>\<open>real\<close>: the values are
    stored, copied, compared and fed to the statistics, and rounding, infinities and
    NaN are not modelled for them;
  \<^item> a \<^verbatim>\<open>float64\<close> that holds a priority of the decaying sample is an \<open>xfloat\<close>:
    a finite number, an infinity or NaN. The priorities are computed with
    \<^verbatim>\<open>math.Exp\<close>, a division and a multiplication, which overflow to an infinity,
    underflow to 0 and produce NaN on ordinary inputs; these are modelled, rounding
    to the nearest float64 within the finite range is not;
  \<^item> \<^verbatim>\<open>int64\<close> counters are \<^typ>\<open>64 word\<close>, read with \<^const>\<open>sint\<close>;
    \<^verbatim>\<open>int\<close> lengths and indices are \<^typ>\<open>int\<close> or \<^typ>\<open>nat\<close>;
  \<^item> a \<^verbatim>\<open>time.Time\<close> is a number of nanoseconds (\<^typ>\<open>int\<close>), and so is a
    \<^verbatim>\<open>time.Duration\<close>; the saturation of \<^verbatim>\<open>Sub\<close> at about 292 years is
    not modelled;
  \<^item> the results of \<^verbatim>\<open>rand.Float64()\<close> and \<^verbatim>\<open>rand.Int63n(n)\<close> are
    arguments of the functions that draw them;
  \<^item> the mutex is not modelled: every method is one atomic step;
  \<^item> a panic is a value: a method returns \<open>Done r s\<close> with its result and the state it
    leaves, or \<open>Panic e s\<close> with the state at the moment of the panic.
\<close>

type_synonym float64 = real

datatype panic =
    IndexOutOfRange
  | SliceBoundsOutOfRange
  | MakeSliceOutOfRange
  | InvalidArgument
  | PanicMsg string

datatype ('r, 's) outcome = Done 'r 's | Panic panic 's

fun final_state :: "('r, 's) outcome \<Rightarrow> 's" where
  "final_state (Done r s) = s"
| "final_state (Panic e s) = s"

fun panicked :: "('r, 's) outcome \<Rightarrow> bool" where
  "panicked (Done r s) = False"
| "panicked (Panic e s) = True"

text \<open>What a call returns, apart from the state it leaves.\<close>

fun returned :: "('r, 's) outcome \<Rightarrow> panic + 'r" where
  "returned (Done r s) = Inr r"
| "returned (Panic e s) = Inl e"

subsection \<open>Slices of float64 and their backing arrays\<close>

text \<open>
  A \<^verbatim>\<open>[]float64\<close> is a view of a backing array, and two slices may share one. The
  store maps the address of every backing array to its contents (as long as its
  capacity); \<open>nxt\<close> is the first address never allocated. Every slice of the program starts
  at offset 0 of its array, so a slice is the address and a length.
\<close>

record store =
  mem :: "nat \<Rightarrow> float64 list"
  nxt :: nat

record float64Slice =
  base :: nat
  len :: nat

definition slice_cap :: "store \<Rightarrow> float64Slice \<Rightarrow> nat" where
  "slice_cap w sl = length (mem w (base sl))"

definition slice_contents :: "store \<Rightarrow> float64Slice \<Rightarrow> float64 list" where
  "slice_contents w sl = take (len sl) (mem w (base sl))"

text \<open>\<^verbatim>\<open>make([]float64, n, c)\<close>: a fresh zeroed array; panics on a negative size.\<close>

definition make_float64 :: "store \<Rightarrow> int \<Rightarrow> int \<Rightarrow> (float64Slice, store) outcome" where
  "make_float64 w n c =
     (if n < 0 \<or> c < n then Panic MakeSliceOutOfRange w
      else Done \<lparr>base = nxt w, len = nat n\<rparr>
                (w\<lparr>mem := (mem w)(nxt w := replicate (nat c) 0), nxt := Suc (nxt w)\<rparr>))"

text \<open>\<^verbatim>\<open>copy(dst, src)\<close>: the first \<open>min (len dst) (len src)\<close> elements.\<close>

definition copy_float64 :: "store \<Rightarrow> float64Slice \<Rightarrow> float64 list \<Rightarrow> store" where
  "copy_float64 w dst src =
     (let m = min (len dst) (length src); a = mem w (base dst)
      in w\<lparr>mem := (mem w)(base dst := take m src @ drop m a)\<rparr>)"

text \<open>
  \<^verbatim>\<open>sort.Sort(values)\<close> on a \<^verbatim>\<open>float64Slice\<close> sorts the visible elements of the
  backing array in place, by \<^verbatim>\<open>p[i] < p[j]\<close>. On a linear order the result of any
  correct sort is the one sorted arrangement of the elements, here \<^const>\<open>sort\<close>.
\<close>

definition sort_Sort :: "store \<Rightarrow> float64Slice \<Rightarrow> store" where
  "sort_Sort w values =
     (let a = mem w (base values)
      in w\<lparr>mem := (mem w)(base values := sort (take (len values) a) @ drop (len values) a)\<rparr>)"

text \<open>An indexed read \<^verbatim>\<open>xs[i]\<close> with Go's bounds check.\<close>

definition index :: "'a list \<Rightarrow> int \<Rightarrow> panic + 'a" where
  "index xs i = (if 0 \<le> i \<and> i < int (length xs) then Inr (xs ! nat i) else Inl IndexOutOfRange)"

section \<open>The statistics functions\<close>

text \<open>\<^verbatim>\<open>math.MaxFloat64\<close>, the largest finite float64.\<close>

definition MaxFloat64 :: float64 where
  "MaxFloat64 = (2 ^ 53 - 1) * 2 ^ 971"

text \<open>
  The functions that only read their argument are functions of the slice's contents.
  A \<^verbatim>\<open>for _, v := range values\<close> loop with an accumulator is a \<^const>\<open>foldl\<close>.
\<close>

definition SampleMaxFloat64 :: "float64 list \<Rightarrow> float64" where
  "SampleMaxFloat64 values =
     (if 0 = length values then 0
      else foldl (\<lambda>m x. if m < x then x else m) (- MaxFloat64) values)"

definition SampleMinFloat64 :: "float64 list \<Rightarrow> float64" where
  "SampleMinFloat64 values =
     (if 0 = length values then 0
      else foldl (\<lambda>m x. if m > x then x else m) MaxFloat64 values)"

definition SampleSumFloat64 :: "float64 list \<Rightarrow> float64" where
  "SampleSumFloat64 values = foldl (\<lambda>sum x. sum + x) 0 values"

definition SampleMeanFloat64 :: "float64 list \<Rightarrow> float64" where
  "SampleMeanFloat64 values =
     (if 0 = length values then 0
      else SampleSumFloat64 values / real (length values))"

definition SampleVarianceFloat64 :: "float64 list \<Rightarrow> float64" where
  "SampleVarianceFloat64 values =
     (if 0 = length values then 0
      else let m = SampleMeanFloat64 values
           in foldl (\<lambda>sum x. let d = x - m in sum + d * d) 0 values / real (length values))"

definition SampleStdDevFloat64 :: "float64 list \<Rightarrow> float64" where
  "SampleStdDevFloat64 values = sqrt (SampleVarianceFloat64 values)"

text \<open>
  The conversion \<^verbatim>\<open>int(pos)\<close> of a float64 truncates towards zero.
\<close>

definition go_int :: "float64 \<Rightarrow> int" where
  "go_int x = (if 0 \<le> x then \<lfloor>x\<rfloor> else \<lceil>x\<rceil>)"

text \<open>
  One round of the loop of \<^verbatim>\<open>SamplePercentilesFloat64\<close>, on the sorted values: the
  score of the percentile \<open>p\<close>. It is entered only with \<open>size > 0\<close>.
\<close>

definition percentile_score :: "float64 list \<Rightarrow> float64 \<Rightarrow> panic + float64" where
  "percentile_score values p =
     (let size = int (length values);
          pos = p * real_of_int (size + 1)
      in if pos < 1 then index values 0
         else if pos \<ge> real_of_int size then index values (size - 1)
         else (case index values (go_int pos - 1) of
                 Inl e \<Rightarrow> Inl e
               | Inr lower \<Rightarrow>
                  (case index values (go_int pos) of
                     Inl e \<Rightarrow> Inl e
                   | Inr upper \<Rightarrow>
                       Inr (lower + (pos - real_of_int \<lfloor>pos\<rfloor>) * (upper - lower)))))"

text \<open>
  The loop over \<open>ps\<close>. \<open>scores\<close> starts as \<open>len(ps)\<close> zeros and round \<open>i\<close> stores
  \<open>scores[i]\<close>; the list built here is the part of \<open>scores\<close> written so far.
\<close>

fun percentile_loop :: "float64 list \<Rightarrow> float64 list \<Rightarrow> panic + float64 list" where
  "percentile_loop values [] = Inr []"
| "percentile_loop values (p # ps) =
     (case percentile_score values p of
        Inl e \<Rightarrow> Inl e
      | Inr x \<Rightarrow>
         (case percentile_loop values ps of
            Inl e \<Rightarrow> Inl e
          | Inr xs \<Rightarrow> Inr (x # xs)))"

text \<open>
  \<^verbatim>\<open>SamplePercentilesFloat64(values, ps)\<close>. The slice \<open>values\<close> is passed by reference
  and sorted in place, so the function returns the store it leaves.
\<close>

definition SamplePercentilesFloat64 ::
  "store \<Rightarrow> float64Slice \<Rightarrow> float64 list \<Rightarrow> (float64 list, store) outcome" where
  "SamplePercentilesFloat64 w values ps =
     (let size = len values
      in if size > 0 then
           (let w1 = sort_Sort w values
            in case percentile_loop (slice_contents w1 values) ps of
                 Inl e \<Rightarrow> Panic e w1
               | Inr scores \<Rightarrow> Done scores w1)
         else Done (replicate (length ps) 0) w)"

text \<open>\<^verbatim>\<open>SamplePercentileFloat64(values, p)\<close>: element 0 of the scores of \<open>[p]\<close>.\<close>

definition SamplePercentileFloat64 ::
  "store \<Rightarrow> float64Slice \<Rightarrow> float64 \<Rightarrow> (float64, store) outcome" where
  "SamplePercentileFloat64 w values p =
     (case SamplePercentilesFloat64 w values [p] of
        Panic e w1 \<Rightarrow> Panic e w1
      | Done scores w1 \<Rightarrow>
         (case index scores 0 of
            Inl e \<Rightarrow> Panic e w1
          | Inr x \<Rightarrow> Done x w1))"

section \<open>Snapshots\<close>

record SampleSnapshotFloat64 =
  snap_count :: "64 word"
  snap_values :: float64Slice

definition Snapshot_Clear :: "store \<Rightarrow> SampleSnapshotFloat64 \<Rightarrow> (unit, store) outcome" where
  "Snapshot_Clear w s = Panic (PanicMsg ''Clear called on a SampleSnapshotFloat64'') w"

definition Snapshot_Update ::
  "store \<Rightarrow> SampleSnapshotFloat64 \<Rightarrow> float64 \<Rightarrow> (unit, store) outcome" where
  "Snapshot_Update w s x = Panic (PanicMsg ''Update called on a SampleSnapshotFloat64'') w"

definition Snapshot_Count :: "SampleSnapshotFloat64 \<Rightarrow> int" where
  "Snapshot_Count s = sint (snap_count s)"

definition Snapshot_Max :: "store \<Rightarrow> SampleSnapshotFloat64 \<Rightarrow> float64" where
  "Snapshot_Max w s = SampleMaxFloat64 (slice_contents w (snap_values s))"

definition Snapshot_Mean :: "store \<Rightarrow> SampleSnapshotFloat64 \<Rightarrow> float64" where
  "Snapshot_Mean w s = SampleMeanFloat64 (slice_contents w (snap_values s))"

definition Snapshot_Min :: "store \<Rightarrow> SampleSnapshotFloat64 \<Rightarrow> float64" where
  "Snapshot_Min w s = SampleMinFloat64 (slice_contents w (snap_values s))"

definition Snapshot_Percentile ::
  "store \<Rightarrow> SampleSnapshotFloat64 \<Rightarrow> float64 \<Rightarrow> (float64, store) outcome" where
  "Snapshot_Percentile w s p = SamplePercentileFloat64 w (snap_values s) p"

definition Snapshot_Percentiles ::
  "store \<Rightarrow> SampleSnapshotFloat64 \<Rightarrow> float64 list \<Rightarrow> (float64 list, store) outcome" where
  "Snapshot_Percentiles w s ps = SamplePercentilesFloat64 w (snap_values s) ps"

definition Snapshot_Size :: "SampleSnapshotFloat64 \<Rightarrow> int" where
  "Snapshot_Size s = int (len (snap_values s))"

definition Snapshot_StdDev :: "store \<Rightarrow> SampleSnapshotFloat64 \<Rightarrow> float64" where
  "Snapshot_StdDev w s = SampleStdDevFloat64 (slice_contents w (snap_values s))"

definition Snapshot_Sum :: "store \<Rightarrow> SampleSnapshotFloat64 \<Rightarrow> float64" where
  "Snapshot_Sum w s = SampleSumFloat64 (slice_contents w (snap_values s))"

text \<open>\<open>Values\<close> returns a copy: the model returns the contents copied.\<close>

definition Snapshot_Values :: "store \<Rightarrow> SampleSnapshotFloat64 \<Rightarrow> float64 list" where
  "Snapshot_Values w s = slice_contents w (snap_values s)"

definition Snapshot_Variance :: "store \<Rightarrow> SampleSnapshotFloat64 \<Rightarrow> float64" where
  "Snapshot_Variance w s = SampleVarianceFloat64 (slice_contents w (snap_values s))"

section \<open>Priorities: float64 with its special values\<close>

datatype xfloat = Fin real | PInf | NInf | NaN

text \<open>
  The result of an operation whose exact value is \<open>r\<close>: an infinity from
  \<open>2 ^ 1024 - 2 ^ 970\<close> on (the midpoint between the largest float64 and \<open>2 ^ 1024\<close>),
  0 up to \<open>2 ^ -1075\<close> (half of the smallest positive float64), else \<open>r\<close>.
\<close>

definition round_fin :: "real \<Rightarrow> xfloat" where
  "round_fin r =
     (if r \<ge> 2 ^ 1024 - 2 ^ 970 then PInf
      else if r \<le> - (2 ^ 1024 - 2 ^ 970) then NInf
      else if \<bar>r\<bar> \<le> 1 / 2 ^ 1075 then Fin 0
      else Fin r)"

text \<open>The sign of a float64 that is not NaN: 1, -1 or, for zero, 0.\<close>

fun xsgn :: "xfloat \<Rightarrow> real" where
  "xsgn (Fin r) = sgn r"
| "xsgn PInf = 1"
| "xsgn NInf = - 1"
| "xsgn NaN = 0"

text \<open>
  The product \<open>a * b\<close> of IEEE 754: NaN for a NaN operand and for infinity times zero,
  an infinity of the product's sign for an infinite operand, else the rounded product.
\<close>

fun fmul :: "xfloat \<Rightarrow> xfloat \<Rightarrow> xfloat" where
  "fmul NaN b = NaN"
| "fmul a NaN = NaN"
| "fmul (Fin x) (Fin y) = round_fin (x * y)"
| "fmul a b =
     (if xsgn a * xsgn b = 0 then NaN else if xsgn a * xsgn b > 0 then PInf else NInf)"

text \<open>
  The quotient \<open>a / b\<close> of IEEE 754. A zero divisor is the positive zero (the only
  divisor of the program is a draw of \<^verbatim>\<open>rand.Float64()\<close>, in \<open>[0, 1)\<close>): a finite
  dividend gives an infinity of its sign, and \<open>0 / 0\<close> is NaN.
\<close>

fun fdiv :: "xfloat \<Rightarrow> xfloat \<Rightarrow> xfloat" where
  "fdiv NaN b = NaN"
| "fdiv a NaN = NaN"
| "fdiv (Fin x) (Fin y) =
     (if y = 0 then (if x = 0 then NaN else if x > 0 then PInf else NInf)
      else round_fin (x / y))"
| "fdiv (Fin x) b = Fin 0"
| "fdiv a (Fin y) = (if xsgn a * (if y < 0 then - 1 else 1) > 0 then PInf else NInf)"
| "fdiv a b = NaN"

text \<open>
  \<^verbatim>\<open>math.Exp\<close>, with the special cases of its source: NaN and \<open>+Inf\<close> are returned as
  they are, \<open>-Inf\<close> gives 0, an argument above the constant \<open>Overflow\<close> gives \<open>+Inf\<close> and
  one below the constant \<open>Underflow\<close> gives 0.
\<close>

definition Exp_Overflow :: real where
  "Exp_Overflow = 709782712893383973096 / 10 ^ 18"

definition Exp_Underflow :: real where
  "Exp_Underflow = - (745133219101941108420 / 10 ^ 18)"

fun math_Exp :: "xfloat \<Rightarrow> xfloat" where
  "math_Exp NaN = NaN"
| "math_Exp PInf = PInf"
| "math_Exp NInf = Fin 0"
| "math_Exp (Fin x) =
     (if x > Exp_Overflow then PInf
      else if x < Exp_Underflow then Fin 0
      else Fin (exp x))"

text \<open>
  The comparisons \<open>a < b\<close> and \<open>a \<le> b\<close> of float64: false whenever an operand is NaN.
\<close>

fun flt :: "xfloat \<Rightarrow> xfloat \<Rightarrow> bool" where
  "flt NaN b = False"
| "flt a NaN = False"
| "flt (Fin x) (Fin y) = (x < y)"
| "flt a NInf = False"
| "flt PInf b = False"
| "flt a b = True"

fun fle :: "xfloat \<Rightarrow> xfloat \<Rightarrow> bool" where
  "fle NaN b = False"
| "fle a NaN = False"
| "fle (Fin x) (Fin y) = (x \<le> y)"
| "fle NInf b = True"
| "fle a PInf = True"
| "fle a b = False"

section \<open>The heap of the decaying sample\<close>

text \<open>
  An item of the heap: the priority \<open>k\<close> and the value \<open>v\<close> of the source are the
  fields \<open>item_k\<close> and \<open>item_v\<close>.
\<close>

record expDecaySampleFloat64 =
  item_k :: xfloat
  item_v :: float64

text \<open>
  The heap owns the slice \<open>s\<close>: \<open>heap_s\<close> is its whole backing array, as long as its
  capacity, and \<open>heap_len\<close> is \<open>len(h.s)\<close>. The array belongs to one sample and no other
  object refers to it, so it is kept in the heap's record; the alias that
  \<open>Values()\<close> returns is used only inside \<open>update\<close>, which is modelled on the array.
\<close>

record expDecaySampleHeapFloat64 =
  heap_s :: "expDecaySampleFloat64 list"
  heap_len :: nat

definition newExpDecaySampleHeapFloat64 ::
  "int \<Rightarrow> (expDecaySampleHeapFloat64, unit) outcome" where
  "newExpDecaySampleHeapFloat64 reservoirSize =
     (if reservoirSize < 0 then Panic MakeSliceOutOfRange ()
      else Done \<lparr>heap_s = replicate (nat reservoirSize) \<lparr>item_k = Fin 0, item_v = 0\<rparr>,
                 heap_len = 0\<rparr> ())"

definition swap :: "'a list \<Rightarrow> nat \<Rightarrow> nat \<Rightarrow> 'a list" where
  "swap s i j = s[i := s ! j, j := s ! i]"

text \<open>
  \<open>up(j)\<close>. Indices are naturals: for \<open>j = 0\<close> Go's \<open>(j - 1) / 2\<close> truncates \<open>-1 / 2\<close>
  to 0, which is also what the subtraction on naturals gives.
\<close>

function up :: "expDecaySampleFloat64 list \<Rightarrow> nat \<Rightarrow> expDecaySampleFloat64 list" where
  "up s j =
     (if (j - 1) div 2 = j \<or> \<not> flt (item_k (s ! j)) (item_k (s ! ((j - 1) div 2))) then s
      else up (swap s ((j - 1) div 2) j) ((j - 1) div 2))"
  by pat_completeness auto
termination
  by (relation "measure (\<lambda>(s, j). j)") auto

text \<open>
  \<open>down(i, n)\<close>. The test \<open>j1 < 0\<close> of the source guards an overflow of \<open>2*i + 1\<close>,
  which the natural numbers do not have.
\<close>

function down :: "expDecaySampleFloat64 list \<Rightarrow> nat \<Rightarrow> nat \<Rightarrow> expDecaySampleFloat64 list" where
  "down s i n =
     (if 2 * i + 1 \<ge> n then s
      else if \<not> flt (item_k (s ! (if 2 * i + 2 < n \<and> \<not> flt (item_k (s ! (2 * i + 1))) (item_k (s ! (2 * i + 2)))
                                   then 2 * i + 2 else 2 * i + 1))) (item_k (s ! i)) then s
      else down (swap s i (if 2 * i + 2 < n \<and> \<not> flt (item_k (s ! (2 * i + 1))) (item_k (s ! (2 * i + 2)))
                           then 2 * i + 2 else 2 * i + 1))
                (if 2 * i + 2 < n \<and> \<not> flt (item_k (s ! (2 * i + 1))) (item_k (s ! (2 * i + 2)))
                 then 2 * i + 2 else 2 * i + 1) n)"
  by pat_completeness auto
termination
  by (relation "measure (\<lambda>(s, i, n). n - i)") auto

definition Heap_Clear :: "expDecaySampleHeapFloat64 \<Rightarrow> expDecaySampleHeapFloat64" where
  "Heap_Clear h = h\<lparr>heap_len := 0\<rparr>"

text \<open>\<open>Push\<close>: the reslice \<open>h.s[0 : n+1]\<close> panics beyond the capacity.\<close>

definition Heap_Push ::
  "expDecaySampleHeapFloat64 \<Rightarrow> expDecaySampleFloat64 \<Rightarrow> (unit, expDecaySampleHeapFloat64) outcome" where
  "Heap_Push h x =
     (let n = heap_len h
      in if n + 1 > length (heap_s h) then Panic SliceBoundsOutOfRange h
         else Done () (h\<lparr>heap_s := up ((heap_s h)[n := x]) n, heap_len := n + 1\<rparr>))"

text \<open>
  \<open>Pop\<close>: on an empty heap \<open>n = -1\<close> and the first statement, which reads \<open>h.s[0]\<close> and
  \<open>h.s[n]\<close>, panics before anything is written.
\<close>

definition Heap_Pop ::
  "expDecaySampleHeapFloat64 \<Rightarrow> (expDecaySampleFloat64, expDecaySampleHeapFloat64) outcome" where
  "Heap_Pop h =
     (if heap_len h = 0 then Panic IndexOutOfRange h
      else let n = heap_len h - 1;
               s1 = down (swap (heap_s h) 0 n) 0 n;
               n' = heap_len h
           in Done (s1 ! (n' - 1)) (h\<lparr>heap_s := s1, heap_len := n' - 1\<rparr>))"

definition Heap_Size :: "expDecaySampleHeapFloat64 \<Rightarrow> int" where
  "Heap_Size h = int (heap_len h)"

definition Heap_Values :: "expDecaySampleHeapFloat64 \<Rightarrow> expDecaySampleFloat64 list" where
  "Heap_Values h = take (heap_len h) (heap_s h)"

text \<open>
  The min-heap invariant on the first \<open>n\<close> elements: the priority of every parent is at
  most the priority of each of its children, by the comparison of float64.
\<close>

definition heap_ok :: "expDecaySampleFloat64 list \<Rightarrow> nat \<Rightarrow> bool" where
  "heap_ok s n = (\<forall>j \<in> {1..<n}. fle (item_k (s ! ((j - 1) div 2))) (item_k (s ! j)))"

text \<open>No priority among the first \<open>n\<close> elements, or among the items of a heap, is NaN.\<close>

definition no_nan :: "expDecaySampleFloat64 list \<Rightarrow> nat \<Rightarrow> bool" where
  "no_nan s n = (\<forall>j \<in> {0..<n}. item_k (s ! j) \<noteq> NaN)"

definition heap_no_nan :: "expDecaySampleHeapFloat64 \<Rightarrow> bool" where
  "heap_no_nan h = no_nan (heap_s h) (heap_len h)"

definition heap_inv :: "expDecaySampleHeapFloat64 \<Rightarrow> bool" where
  "heap_inv h = (heap_len h \<le> length (heap_s h) \<and> heap_ok (heap_s h) (heap_len h))"

section \<open>The exponentially decaying sample\<close>

record ExpDecaySampleFloat64 =
  e_alpha :: float64
  e_count :: "64 word"
  e_reservoirSize :: int
  e_t0 :: int
  e_t1 :: int
  e_values :: expDecaySampleHeapFloat64

text \<open>\<open>Duration.Seconds()\<close> of a number of nanoseconds.\<close>

definition Seconds :: "int \<Rightarrow> float64" where
  "Seconds d = real_of_int d / 1000000000"

text \<open>
  The constant \<open>rescaleThreshold\<close> is declared in another file of the package; it is
  the argument \<open>rt\<close> (nanoseconds) of every function that uses it. \<open>now\<close> is the value
  of \<open>time.Now()\<close>.
\<close>

definition NewExpDecaySampleFloat64 ::
  "int \<Rightarrow> int \<Rightarrow> int \<Rightarrow> float64 \<Rightarrow> (ExpDecaySampleFloat64, unit) outcome" where
  "NewExpDecaySampleFloat64 rt now reservoirSize alpha =
     (case newExpDecaySampleHeapFloat64 reservoirSize of
        Panic e u \<Rightarrow> Panic e ()
      | Done h u \<Rightarrow>
          Done \<lparr>e_alpha = alpha, e_count = 0, e_reservoirSize = reservoirSize,
                e_t0 = now, e_t1 = now + rt, e_values = h\<rparr> ())"

definition ExpDecay_Clear :: "int \<Rightarrow> int \<Rightarrow> ExpDecaySampleFloat64 \<Rightarrow> ExpDecaySampleFloat64" where
  "ExpDecay_Clear rt now s =
     s\<lparr>e_count := 0, e_t0 := now, e_t1 := now + rt, e_values := Heap_Clear (e_values s)\<rparr>"

definition ExpDecay_Count :: "ExpDecaySampleFloat64 \<Rightarrow> int" where
  "ExpDecay_Count s = sint (e_count s)"

definition ExpDecay_Size :: "ExpDecaySampleFloat64 \<Rightarrow> int" where
  "ExpDecay_Size s = Heap_Size (e_values s)"

text \<open>
  The loop of the rescale, \<open>for _, v := range values\<close>, from round \<open>i\<close> on. \<open>values\<close> is
  the slice \<open>h.s\<close> as it was before \<open>Clear\<close>: \<open>n\<close> elements of the heap's own backing
  array, so round \<open>i\<close> reads element \<open>i\<close> of the array as the earlier rounds' \<open>Push\<close> left it.
  \<open>c\<close> is the factor \<open>math.Exp(-s.alpha * s.t0.Sub(t0).Seconds())\<close>.
\<close>

function rescale_loop ::
  "xfloat \<Rightarrow> expDecaySampleHeapFloat64 \<Rightarrow> nat \<Rightarrow> nat \<Rightarrow> (unit, expDecaySampleHeapFloat64) outcome" where
  "rescale_loop c h i n =
     (if i < n then
        (case Heap_Push h ((heap_s h ! i)\<lparr>item_k := fmul (item_k (heap_s h ! i)) c\<rparr>) of
           Panic e h' \<Rightarrow> Panic e h'
         | Done u h' \<Rightarrow> rescale_loop c h' (Suc i) n)
      else Done () h)"
  by pat_completeness auto
termination
  by (relation "measure (\<lambda>(c, h, i, n). n - i)") auto

definition rescale ::
  "int \<Rightarrow> ExpDecaySampleFloat64 \<Rightarrow> int \<Rightarrow> (unit, ExpDecaySampleFloat64) outcome" where
  "rescale rt s t =
     (let n = heap_len (e_values s);
          t0 = e_t0 s;
          s1 = s\<lparr>e_values := Heap_Clear (e_values s), e_t0 := t, e_t1 := t + rt\<rparr>
      in case rescale_loop
                (math_Exp (fmul (Fin (- e_alpha s1)) (Fin (Seconds (e_t0 s1 - t0)))))
                (e_values s1) 0 n of
           Panic e h \<Rightarrow> Panic e (s1\<lparr>e_values := h\<rparr>)
         | Done u h \<Rightarrow> Done () (s1\<lparr>e_values := h\<rparr>))"

text \<open>
  \<open>update(t, v)\<close>; \<open>u\<close> is the value of \<open>rand.Float64()\<close>, a finite number. The
  function is written in two parts: \<open>ExpDecay_insert\<close> is the body up to the \<open>Push\<close> of
  the new item, and \<open>ExpDecay_update\<close> adds the final \<open>if t.After(s.t1)\<close>.
\<close>

definition ExpDecay_insert ::
  "ExpDecaySampleFloat64 \<Rightarrow> int \<Rightarrow> float64 \<Rightarrow> float64 \<Rightarrow> (unit, ExpDecaySampleFloat64) outcome" where
  "ExpDecay_insert s t x u =
     (let s1 = s\<lparr>e_count := e_count s + 1\<rparr>
      in case (if Heap_Size (e_values s1) = e_reservoirSize s1
               then (case Heap_Pop (e_values s1) of
                       Panic e h \<Rightarrow> Panic e h
                     | Done y h \<Rightarrow> Done () h)
               else Done () (e_values s1)) of
           Panic e h \<Rightarrow> Panic e (s1\<lparr>e_values := h\<rparr>)
         | Done u1 h1 \<Rightarrow>
            (case Heap_Push h1
                    \<lparr>item_k = fdiv (math_Exp (fmul (Fin (Seconds (t - e_t0 s1))) (Fin (e_alpha s1))))
                                   (Fin u),
                     item_v = x\<rparr> of
               Panic e h \<Rightarrow> Panic e (s1\<lparr>e_values := h\<rparr>)
             | Done u2 h2 \<Rightarrow> Done () (s1\<lparr>e_values := h2\<rparr>)))"

definition ExpDecay_update ::
  "int \<Rightarrow> ExpDecaySampleFloat64 \<Rightarrow> int \<Rightarrow> float64 \<Rightarrow> float64 \<Rightarrow> (unit, ExpDecaySampleFloat64) outcome" where
  "ExpDecay_update rt s t x u =
     (case ExpDecay_insert s t x u of
        Panic e s1 \<Rightarrow> Panic e s1
      | Done u1 s1 \<Rightarrow> (if t > e_t1 s1 then rescale rt s1 t else Done () s1))"

text \<open>\<open>Update(v)\<close> is \<open>update(time.Now(), v)\<close>: the same function, \<open>t\<close> being the clock.\<close>

text \<open>\<open>Values()\<close>: a fresh slice holding the values of the items.\<close>

definition ExpDecay_Values ::
  "store \<Rightarrow> ExpDecaySampleFloat64 \<Rightarrow> (float64Slice, store) outcome" where
  "ExpDecay_Values w s =
     (let vals = Heap_Values (e_values s)
      in case make_float64 w (int (length vals)) (int (length vals)) of
           Panic e w1 \<Rightarrow> Panic e w1
         | Done values w1 \<Rightarrow> Done values (copy_float64 w1 values (map item_v vals)))"

definition ExpDecay_Snapshot ::
  "store \<Rightarrow> ExpDecaySampleFloat64 \<Rightarrow> (SampleSnapshotFloat64, store) outcome" where
  "ExpDecay_Snapshot w s =
     (let vals = Heap_Values (e_values s)
      in case make_float64 w (int (length vals)) (int (length vals)) of
           Panic e w1 \<Rightarrow> Panic e w1
         | Done values w1 \<Rightarrow>
             Done \<lparr>snap_count = e_count s, snap_values = values\<rparr>
                  (copy_float64 w1 values (map item_v vals)))"

definition ExpDecay_Percentiles ::
  "store \<Rightarrow> ExpDecaySampleFloat64 \<Rightarrow> float64 list \<Rightarrow> (float64 list, store) outcome" where
  "ExpDecay_Percentiles w s ps =
     (case ExpDecay_Values w s of
        Panic e w1 \<Rightarrow> Panic e w1
      | Done values w1 \<Rightarrow> SamplePercentilesFloat64 w1 values ps)"

text \<open>The calls a client can make on a decaying sample, with the clock and the draw.\<close>

datatype e_op = E_Update int float64 float64 | E_Clear int

fun ExpDecay_run ::
  "int \<Rightarrow> ExpDecaySampleFloat64 \<Rightarrow> e_op list \<Rightarrow> (unit, ExpDecaySampleFloat64) outcome" where
  "ExpDecay_run rt s [] = Done () s"
| "ExpDecay_run rt s (E_Update t x u # ops) =
     (case ExpDecay_update rt s t x u of
        Panic e s1 \<Rightarrow> Panic e s1
      | Done r s1 \<Rightarrow> ExpDecay_run rt s1 ops)"
| "ExpDecay_run rt s (E_Clear now # ops) = ExpDecay_run rt (ExpDecay_Clear rt now s) ops"

section \<open>The uniform sample\<close>

record UniformSampleFloat64 =
  u_count :: "64 word"
  u_reservoirSize :: int
  u_values :: float64Slice

text \<open>
  \<open>append(sl, x)\<close>: in place while the capacity allows, else into a fresh, larger array.
  How much larger is the runtime's choice; the model doubles.
\<close>

definition append_float64 :: "store \<Rightarrow> float64Slice \<Rightarrow> float64 \<Rightarrow> float64Slice \<times> store" where
  "append_float64 w sl x =
     (if len sl < slice_cap w sl then
        (sl\<lparr>len := len sl + 1\<rparr>,
         w\<lparr>mem := (mem w)(base sl := (mem w (base sl))[len sl := x])\<rparr>)
      else
        (\<lparr>base = nxt w, len = len sl + 1\<rparr>,
         w\<lparr>mem := (mem w)(nxt w := slice_contents w sl @ [x] @ replicate (len sl + 1) 0),
           nxt := Suc (nxt w)\<rparr>))"

definition NewUniformSampleFloat64 ::
  "store \<Rightarrow> int \<Rightarrow> (UniformSampleFloat64, store) outcome" where
  "NewUniformSampleFloat64 w reservoirSize =
     (case make_float64 w 0 reservoirSize of
        Panic e w1 \<Rightarrow> Panic e w1
      | Done values w1 \<Rightarrow>
          Done \<lparr>u_count = 0, u_reservoirSize = reservoirSize, u_values = values\<rparr> w1)"

text \<open>The methods that write: the state is the sample's struct and the store.\<close>

definition Uniform_Clear ::
  "UniformSampleFloat64 \<times> store \<Rightarrow> (unit, UniformSampleFloat64 \<times> store) outcome" where
  "Uniform_Clear sw =
     (let s1 = (fst sw)\<lparr>u_count := 0\<rparr>
      in case make_float64 (snd sw) 0 (u_reservoirSize s1) of
           Panic e w1 \<Rightarrow> Panic e (s1, w1)
         | Done values w1 \<Rightarrow> Done () (s1\<lparr>u_values := values\<rparr>, w1))"

text \<open>
  \<open>Update(v)\<close>; \<open>r\<close> is the value of \<open>rand.Int63n(s.count)\<close>, which panics unless
  \<open>s.count > 0\<close> and otherwise returns a number in \<open>[0, s.count)\<close>.
\<close>

definition Uniform_Update ::
  "UniformSampleFloat64 \<times> store \<Rightarrow> float64 \<Rightarrow> int \<Rightarrow> (unit, UniformSampleFloat64 \<times> store) outcome" where
  "Uniform_Update sw x r =
     (let s1 = (fst sw)\<lparr>u_count := u_count (fst sw) + 1\<rparr>; w = snd sw
      in if int (len (u_values s1)) < u_reservoirSize s1 then
           (case append_float64 w (u_values s1) x of
              (values, w1) \<Rightarrow> Done () (s1\<lparr>u_values := values\<rparr>, w1))
         else if sint (u_count s1) \<le> 0 then Panic InvalidArgument (s1, w)
         else if r < int (len (u_values s1)) then
           (if 0 \<le> r then
              Done () (s1, w\<lparr>mem := (mem w)(base (u_values s1) :=
                                    (mem w (base (u_values s1)))[nat r := x])\<rparr>)
            else Panic IndexOutOfRange (s1, w))
         else Done () (s1, w))"

definition Uniform_Count :: "UniformSampleFloat64 \<Rightarrow> int" where
  "Uniform_Count s = sint (u_count s)"

definition Uniform_Size :: "UniformSampleFloat64 \<Rightarrow> int" where
  "Uniform_Size s = int (len (u_values s))"

definition Uniform_Values :: "store \<Rightarrow> UniformSampleFloat64 \<Rightarrow> (float64Slice, store) outcome" where
  "Uniform_Values w s =
     (case make_float64 w (int (len (u_values s))) (int (len (u_values s))) of
        Panic e w1 \<Rightarrow> Panic e w1
      | Done values w1 \<Rightarrow> Done values (copy_float64 w1 values (slice_contents w1 (u_values s))))"

definition Uniform_Snapshot ::
  "store \<Rightarrow> UniformSampleFloat64 \<Rightarrow> (SampleSnapshotFloat64, store) outcome" where
  "Uniform_Snapshot w s =
     (case make_float64 w (int (len (u_values s))) (int (len (u_values s))) of
        Panic e w1 \<Rightarrow> Panic e w1
      | Done values w1 \<Rightarrow>
          Done \<lparr>snap_count = u_count s, snap_values = values\<rparr>
               (copy_float64 w1 values (slice_contents w1 (u_values s))))"

definition Uniform_Percentiles ::
  "store \<Rightarrow> UniformSampleFloat64 \<Rightarrow> float64 list \<Rightarrow> (float64 list, store) outcome" where
  "Uniform_Percentiles w s ps = SamplePercentilesFloat64 w (u_values s) ps"

definition Uniform_Percentile ::
  "store \<Rightarrow> UniformSampleFloat64 \<Rightarrow> float64 \<Rightarrow> (float64, store) outcome" where
  "Uniform_Percentile w s p = SamplePercentileFloat64 w (u_values s) p"

text \<open>The calls a client can make on a uniform sample, with the draw.\<close>

datatype u_op = U_Update float64 int | U_Clear

fun Uniform_run ::
  "UniformSampleFloat64 \<times> store \<Rightarrow> u_op list \<Rightarrow> (unit, UniformSampleFloat64 \<times> store) outcome" where
  "Uniform_run sw [] = Done () sw"
| "Uniform_run sw (U_Update x r # ops) =
     (case Uniform_Update sw x r of
        Panic e sw1 \<Rightarrow> Panic e sw1
      | Done u sw1 \<Rightarrow> Uniform_run sw1 ops)"
| "Uniform_run sw (U_Clear # ops) =
     (case Uniform_Clear sw of
        Panic e sw1 \<Rightarrow> Panic e sw1
      | Done u sw1 \<Rightarrow> Uniform_run sw1 ops)"

section \<open>The specification's notions\<close>

text \<open>
  The percentile in the words of the specification: with \<open>n\<close> values and the rank
  position \<open>pos = p * (n + 1)\<close>, the minimum if \<open>pos < 1\<close>, the maximum if \<open>pos \<ge> n\<close>,
  else the interpolation between the elements of ranks \<open>\<lfloor>pos\<rfloor>\<close> and \<open>\<lfloor>pos\<rfloor> + 1\<close>
  (ranks count from 1) of the sorted arrangement.
\<close>

definition rank :: "float64 list \<Rightarrow> int \<Rightarrow> float64" where
  "rank xs r = sort xs ! (nat r - 1)"

definition spec_percentile :: "float64 list \<Rightarrow> float64 \<Rightarrow> float64" where
  "spec_percentile xs p =
     (let n = length xs;
          pos = p * real (n + 1)
      in if pos < 1 then Min (set xs)
         else if pos \<ge> real n then Max (set xs)
         else (let lower = rank xs \<lfloor>pos\<rfloor>; upper = rank xs (\<lfloor>pos\<rfloor> + 1)
               in lower + (pos - real_of_int \<lfloor>pos\<rfloor>) * (upper - lower)))"

text \<open>The number of \<open>Update\<close> calls since the last \<open>Clear\<close>, counting from \<open>n\<close>.\<close>

fun u_updates :: "nat \<Rightarrow> u_op list \<Rightarrow> nat" where
  "u_updates n [] = n"
| "u_updates n (U_Update x r # ops) = u_updates (Suc n) ops"
| "u_updates n (U_Clear # ops) = u_updates 0 ops"

fun e_updates :: "nat \<Rightarrow> e_op list \<Rightarrow> nat" where
  "e_updates n [] = n"
| "e_updates n (E_Update t x u # ops) = e_updates (Suc n) ops"
| "e_updates n (E_Clear now # ops) = e_updates 0 ops"

text \<open>
  The contract of \<open>rand.Int63n\<close> that the sample relies on: the draw is not negative.
\<close>

fun u_draw_ok :: "u_op \<Rightarrow> bool" where
  "u_draw_ok (U_Update x r) = (0 \<le> r)"
| "u_draw_ok U_Clear = True"

text \<open>The rescale of one item by the factor \<open>c\<close>.\<close>

definition scale_item :: "xfloat \<Rightarrow> expDecaySampleFloat64 \<Rightarrow> expDecaySampleFloat64" where
  "scale_item c x = x\<lparr>item_k := fmul (item_k x) c\<rparr>"

section \<open>Invariants\<close>

text \<open>A decaying sample of reservoir size 0 with an empty heap.\<close>

definition zero_sample :: "ExpDecaySampleFloat64 \<Rightarrow> bool" where
  "zero_sample s = (e_reservoirSize s = 0 \<and> heap_len (e_values s) = 0)"

text \<open>
  The state of a uniform sample as the constructor and the methods leave it: the array
  of \<open>values\<close> is allocated, has the reservoir size as its capacity, and the slice lies
  within it.
\<close>

definition u_inv :: "UniformSampleFloat64 \<times> store \<Rightarrow> bool" where
  "u_inv sw =
     (0 \<le> u_reservoirSize (fst sw)
      \<and> base (u_values (fst sw)) < nxt (snd sw)
      \<and> slice_cap (snd sw) (u_values (fst sw)) = nat (u_reservoirSize (fst sw))
      \<and> len (u_values (fst sw)) \<le> nat (u_reservoirSize (fst sw)))"

text \<open>The array at the address \<open>b\<close> is allocated and is not the array of the sample.\<close>

definition u_apart :: "nat \<Rightarrow> UniformSampleFloat64 \<times> store \<Rightarrow> bool" where
  "u_apart b sw = (u_inv sw \<and> b < nxt (snd sw) \<and> b \<noteq> base (u_values (fst sw)))"

text \<open>
  An embedding of the priorities that are not NaN into the reals that keeps their
  order; the proofs about the heap compare its values.
\<close>

fun xord :: "xfloat \<Rightarrow> real" where
  "xord (Fin r) = arctan r"
| "xord PInf = 2"
| "xord NInf = - 2"
| "xord NaN = 0"

definition xkey :: "expDecaySampleFloat64 \<Rightarrow> real" where
  "xkey x = xord (item_k x)"

text \<open>
  The loop invariants of \<open>up\<close> and \<open>down\<close> on the first \<open>n\<close> elements, none of which
  has a NaN priority. In \<open>up_inv\<close> the heap order holds for every element but \<open>j\<close>, and
  the parent of \<open>j\<close> is at most the children of \<open>j\<close>. In \<open>down_inv\<close> it holds for every
  element whose parent is not \<open>i\<close>, and the parent of \<open>i\<close> is at most the children of
  \<open>i\<close>.
\<close>

definition up_inv :: "expDecaySampleFloat64 list \<Rightarrow> nat \<Rightarrow> nat \<Rightarrow> bool" where
  "up_inv s n j =
     (j < n \<and> n \<le> length s \<and> no_nan s n
      \<and> (\<forall>c \<in> {1..<n}. c \<noteq> j \<longrightarrow> xkey (s ! ((c - 1) div 2)) \<le> xkey (s ! c))
      \<and> (\<forall>c \<in> {1..<n}. (c - 1) div 2 = j \<and> 1 \<le> j \<longrightarrow>
             xkey (s ! ((j - 1) div 2)) \<le> xkey (s ! c)))"

definition down_inv :: "expDecaySampleFloat64 list \<Rightarrow> nat \<Rightarrow> nat \<Rightarrow> bool" where
  "down_inv s n i =
     (n \<le> length s \<and> no_nan s n
      \<and> (\<forall>c \<in> {1..<n}. (c - 1) div 2 \<noteq> i \<longrightarrow> xkey (s ! ((c - 1) div 2)) \<le> xkey (s ! c))
      \<and> (\<forall>c \<in> {1..<n}. (c - 1) div 2 = i \<and> 1 \<le> i \<longrightarrow>
             xkey (s ! ((i - 1) div 2)) \<le> xkey (s ! c)))"

text \<open>
  The state of a decaying sample of positive reservoir size as the constructor and the
  methods leave it: the heap's array has the reservoir size as its capacity, the heap's
  slice lies within it, and the rescale deadline \<open>t1\<close> is \<open>t0\<close> plus the rescale
  threshold.
\<close>

definition e_inv :: "int \<Rightarrow> ExpDecaySampleFloat64 \<Rightarrow> bool" where
  "e_inv rt s =
     (0 < e_reservoirSize s
      \<and> length (heap_s (e_values s)) = nat (e_reservoirSize s)
      \<and> heap_len (e_values s) \<le> length (heap_s (e_values s))
      \<and> e_t1 s = e_t0 s + rt)"

section \<open>Mutating a snapshot\<close>

text \<open>
  Claim C9. \<open>Update\<close> and \<open>Clear\<close> on a snapshot panic, whatever the snapshot holds and
  whatever the argument; the panic is the first and only statement, so the store is the
  one the call found, and the count and the values of the snapshot are unchanged.
\<close>

theorem snapshot_mutation_panics:
  "Snapshot_Update w s x = Panic (PanicMsg ''Update called on a SampleSnapshotFloat64'') w
   \<and> Snapshot_Clear w s = Panic (PanicMsg ''Clear called on a SampleSnapshotFloat64'') w
   \<and> panicked (Snapshot_Update w s x) \<and> panicked (Snapshot_Clear w s)
   \<and> final_state (Snapshot_Update w s x) = w \<and> final_state (Snapshot_Clear w s) = w
   \<and> Snapshot_Values (final_state (Snapshot_Update w s x)) s = Snapshot_Values w s
   \<and> Snapshot_Values (final_state (Snapshot_Clear w s)) s = Snapshot_Values w s"
  by (simp add: Snapshot_Update_def Snapshot_Clear_def)

section \<open>The statistics of an empty sample\<close>

lemma stats_empty:
  "SampleMinFloat64 [] = 0" "SampleMaxFloat64 [] = 0" "SampleMeanFloat64 [] = 0"
  "SampleSumFloat64 [] = 0" "SampleVarianceFloat64 [] = 0" "SampleStdDevFloat64 [] = 0"
  by (simp_all add: SampleMinFloat64_def SampleMaxFloat64_def SampleMeanFloat64_def
      SampleSumFloat64_def SampleVarianceFloat64_def SampleStdDevFloat64_def)

text \<open>
  Claim C4, as the code has it. On an empty slice \<open>Min\<close>, \<open>Max\<close>, \<open>Mean\<close>, \<open>Sum\<close>,
  \<open>Variance\<close> and \<open>StdDev\<close> are 0. The percentiles skip the sort and the loop, and
  return the slice \<open>scores\<close> as \<open>make\<close> left it: one 0 for each requested percentile,
  not an empty slice; a single percentile is 0.
\<close>

theorem empty_sample_statistics:
  "len values = 0 \<Longrightarrow>
     SampleMinFloat64 (slice_contents w values) = 0
   \<and> SampleMaxFloat64 (slice_contents w values) = 0
   \<and> SampleMeanFloat64 (slice_contents w values) = 0
   \<and> SampleSumFloat64 (slice_contents w values) = 0
   \<and> SampleVarianceFloat64 (slice_contents w values) = 0
   \<and> SampleStdDevFloat64 (slice_contents w values) = 0
   \<and> SamplePercentilesFloat64 w values ps = Done (replicate (length ps) 0) w
   \<and> SamplePercentileFloat64 w values p = Done 0 w"
  by (simp add: slice_contents_def stats_empty SamplePercentilesFloat64_def
      SamplePercentileFloat64_def index_def)

theorem empty_sample_statistics_witness:
  "len \<lparr>base = 0, len = 0\<rparr> = 0
   \<and> SampleMaxFloat64 (slice_contents \<lparr>mem = (\<lambda>a. []), nxt = 1\<rparr> \<lparr>base = 0, len = 0\<rparr>) = 0
   \<and> SamplePercentilesFloat64 \<lparr>mem = (\<lambda>a. []), nxt = 1\<rparr> \<lparr>base = 0, len = 0\<rparr> [1/2, 3/4]
       = Done [0, 0] \<lparr>mem = (\<lambda>a. []), nxt = 1\<rparr>
   \<and> SamplePercentileFloat64 \<lparr>mem = (\<lambda>a. []), nxt = 1\<rparr> \<lparr>base = 0, len = 0\<rparr> (1/2)
       = Done 0 \<lparr>mem = (\<lambda>a. []), nxt = 1\<rparr>"
  using empty_sample_statistics
    [of "\<lparr>base = 0, len = 0\<rparr>" "\<lparr>mem = (\<lambda>a. []), nxt = 1\<rparr>" "[1/2, 3/4]" "1/2"]
  by (simp add: numeral_2_eq_2)

text \<open>
  The claim as stated fails: over an empty slice, the percentiles of \<open>[1/2]\<close> are
  \<open>[0]\<close>, which is not the empty slice.
\<close>

theorem empty_percentiles_counterexample:
  "SamplePercentilesFloat64 \<lparr>mem = (\<lambda>a. []), nxt = 1\<rparr> \<lparr>base = 0, len = 0\<rparr> [1/2]
     = Done [0] \<lparr>mem = (\<lambda>a. []), nxt = 1\<rparr>
   \<and> SamplePercentilesFloat64 \<lparr>mem = (\<lambda>a. []), nxt = 1\<rparr> \<lparr>base = 0, len = 0\<rparr> [1/2]
     \<noteq> Done [] \<lparr>mem = (\<lambda>a. []), nxt = 1\<rparr>"
  by (simp add: SamplePercentilesFloat64_def)

section \<open>A reservoir of size 0\<close>

lemma Heap_Pop_empty: "heap_len h = 0 \<Longrightarrow> Heap_Pop h = Panic IndexOutOfRange h"
  by (simp add: Heap_Pop_def)

lemma Heap_Pop_panics_iff: "panicked (Heap_Pop h) = (heap_len h = 0)"
  by (simp add: Heap_Pop_def Let_def)

lemma zero_sample_insert:
  "zero_sample s \<Longrightarrow>
   ExpDecay_insert s t x u = Panic IndexOutOfRange (s\<lparr>e_count := e_count s + 1\<rparr>)"
  by (simp add: zero_sample_def ExpDecay_insert_def Heap_Size_def Heap_Pop_empty Let_def)

lemma zero_sample_update:
  "zero_sample s \<Longrightarrow>
   ExpDecay_update rt s t x u = Panic IndexOutOfRange (s\<lparr>e_count := e_count s + 1\<rparr>)"
  by (simp add: ExpDecay_update_def zero_sample_insert)

lemma zero_sample_run: "zero_sample s \<Longrightarrow> zero_sample (final_state (ExpDecay_run rt s ops))"
proof (induction ops arbitrary: s)
  case Nil
  then show ?case by simp
next
  case (Cons op ops)
  show ?case
  proof (cases op)
    case (E_Update t x u)
    with Cons.prems show ?thesis
      by (simp add: zero_sample_update) (simp add: zero_sample_def)
  next
    case (E_Clear now)
    have "zero_sample (ExpDecay_Clear rt now s)"
      using Cons.prems by (simp add: zero_sample_def ExpDecay_Clear_def Heap_Clear_def)
    with Cons.IH E_Clear show ?thesis by simp
  qed
qed

lemma zero_sample_new:
  "NewExpDecaySampleFloat64 rt now 0 alpha =
     Done \<lparr>e_alpha = alpha, e_count = 0, e_reservoirSize = 0, e_t0 = now, e_t1 = now + rt,
           e_values = \<lparr>heap_s = [], heap_len = 0\<rparr>\<rparr> ()"
  by (simp add: NewExpDecaySampleFloat64_def newExpDecaySampleHeapFloat64_def)

text \<open>
  Claim C10. The decaying sample constructed with reservoir size 0 exists (the
  constructor does not panic), and in every state it can reach, after any calls of
  \<open>update\<close> and \<open>Clear\<close> (a call that panics leaving the state of the panic), \<open>update\<close>
  panics with an index out of range: the size of the heap, 0, equals the reservoir size,
  so \<open>Pop\<close> runs on the empty heap. \<open>Pop\<close> panics exactly on the empty heap.
\<close>

theorem zero_reservoir_update_panics:
  "(\<exists>s0. NewExpDecaySampleFloat64 rt now 0 alpha = Done s0 ()
      \<and> (\<forall>ops t x u. ExpDecay_update rt (final_state (ExpDecay_run rt s0 ops)) t x u
            = Panic IndexOutOfRange
                ((final_state (ExpDecay_run rt s0 ops))
                   \<lparr>e_count := e_count (final_state (ExpDecay_run rt s0 ops)) + 1\<rparr>)))
   \<and> (\<forall>h. panicked (Heap_Pop h) = (heap_len h = 0))"
proof -
  let ?s0 = "\<lparr>e_alpha = alpha, e_count = 0, e_reservoirSize = 0, e_t0 = now, e_t1 = now + rt,
           e_values = \<lparr>heap_s = [], heap_len = 0\<rparr>\<rparr>"
  have z: "zero_sample ?s0" by (simp add: zero_sample_def)
  have "\<forall>ops t x u. ExpDecay_update rt (final_state (ExpDecay_run rt ?s0 ops)) t x u
            = Panic IndexOutOfRange
                ((final_state (ExpDecay_run rt ?s0 ops))
                   \<lparr>e_count := e_count (final_state (ExpDecay_run rt ?s0 ops)) + 1\<rparr>)"
    using zero_sample_update [OF zero_sample_run [OF z]] by blast
  then show ?thesis
    using zero_sample_new [of rt now alpha] Heap_Pop_panics_iff by auto
qed

section \<open>Percentiles\<close>

lemma slice_contents_sort_Sort:
  "slice_contents (sort_Sort w values) values = sort (slice_contents w values)"
proof -
  let ?a = "mem w (base values)" and ?l = "len values"
  have "take ?l (sort (take ?l ?a) @ drop ?l ?a) = sort (take ?l ?a)"
    by (cases "?l \<le> length ?a") simp_all
  then show ?thesis
    by (simp add: slice_contents_def sort_Sort_def Let_def)
qed

lemma mem_sort_Sort_other:
  "a \<noteq> base values \<Longrightarrow> mem (sort_Sort w values) a = mem w a"
  by (simp add: sort_Sort_def Let_def)

lemma nxt_sort_Sort: "nxt (sort_Sort w values) = nxt w"
  by (simp add: sort_Sort_def Let_def)

lemma sorted_nth_0_Min:
  assumes "sorted ys" "ys \<noteq> []"
  shows "ys ! 0 = Min (set ys)"
proof (rule Min_eqI [symmetric])
  show "finite (set ys)" by simp
  show "ys ! 0 \<in> set ys" using assms by simp
  fix y assume "y \<in> set ys"
  then obtain i where "i < length ys" "ys ! i = y" by (auto simp: in_set_conv_nth)
  with assms show "ys ! 0 \<le> y" using sorted_nth_mono [of ys 0 i] by auto
qed

lemma sorted_nth_last_Max:
  assumes "sorted ys" "ys \<noteq> []"
  shows "ys ! (length ys - 1) = Max (set ys)"
proof (rule Max_eqI [symmetric])
  show "finite (set ys)" by simp
  show "ys ! (length ys - 1) \<in> set ys" using assms by simp
  fix y assume "y \<in> set ys"
  then obtain i where "i < length ys" "ys ! i = y" by (auto simp: in_set_conv_nth)
  with assms show "y \<le> ys ! (length ys - 1)"
    using sorted_nth_mono [of ys i "length ys - 1"] by auto
qed

lemma go_int_floor: "1 \<le> x \<Longrightarrow> go_int x = \<lfloor>x\<rfloor>"
  by (simp add: go_int_def)

lemma percentile_score_sort:
  assumes "xs \<noteq> []"
  shows "percentile_score (sort xs) p = Inr (spec_percentile xs p)"
proof -
  define n where "n = length xs"
  define pos where "pos = p * real (n + 1)"
  have n: "0 < n" using assms by (simp add: n_def)
  have sne: "sort xs \<noteq> []"
    using n unfolding n_def by (metis length_sort length_greater_0_conv)
  have code: "percentile_score (sort xs) p =
      (if pos < 1 then index (sort xs) 0
       else if pos \<ge> real n then index (sort xs) (int n - 1)
       else (case index (sort xs) (go_int pos - 1) of
                 Inl e \<Rightarrow> Inl e
               | Inr lower \<Rightarrow>
                  (case index (sort xs) (go_int pos) of
                     Inl e \<Rightarrow> Inl e
                   | Inr upper \<Rightarrow>
                       Inr (lower + (pos - real_of_int \<lfloor>pos\<rfloor>) * (upper - lower)))))"
  proof -
    have pe: "p * real_of_int (int (length (sort xs)) + 1) = pos"
      by (simp add: pos_def n_def add.commute)
    show ?thesis
      unfolding percentile_score_def Let_def pe by (simp add: n_def)
  qed
  have spec: "spec_percentile xs p =
      (if pos < 1 then Min (set xs)
       else if pos \<ge> real n then Max (set xs)
       else rank xs \<lfloor>pos\<rfloor> + (pos - real_of_int \<lfloor>pos\<rfloor>) * (rank xs (\<lfloor>pos\<rfloor> + 1) - rank xs \<lfloor>pos\<rfloor>))"
    by (simp add: spec_percentile_def Let_def pos_def n_def)
  consider (lo) "pos < 1" | (hi) "\<not> pos < 1" "pos \<ge> real n"
    | (mid) "\<not> pos < 1" "\<not> pos \<ge> real n" by blast
  then show ?thesis
  proof cases
    case lo
    have "sort xs ! 0 = Min (set xs)"
      using sorted_nth_0_Min [of "sort xs"] sne by simp
    with lo n show ?thesis
      unfolding code spec by (simp add: index_def n_def)
  next
    case hi
    have "sort xs ! (n - 1) = Max (set xs)"
      using sorted_nth_last_Max [of "sort xs"] sne by (simp add: n_def)
    moreover from hi have "(pos < 1) = False" "(real n \<le> pos) = True" by simp_all
    ultimately show ?thesis
      using n unfolding code spec by (simp add: index_def n_def nat_diff_distrib')
  next
    case mid
    then have f1: "1 \<le> \<lfloor>pos\<rfloor>" and f2: "\<lfloor>pos\<rfloor> < int n"
      by (simp_all add: le_floor_iff floor_less_iff)
    have g: "go_int pos = \<lfloor>pos\<rfloor>" using mid by (simp add: go_int_floor)
    have i1: "index (sort xs) (\<lfloor>pos\<rfloor> - 1) = Inr (rank xs \<lfloor>pos\<rfloor>)"
      using f1 f2 by (simp add: index_def rank_def nat_diff_distrib' n_def)
    have i2: "index (sort xs) \<lfloor>pos\<rfloor> = Inr (rank xs (\<lfloor>pos\<rfloor> + 1))"
      using f1 f2 by (simp add: index_def rank_def nat_add_distrib n_def)
    from mid have "(pos < 1) = False" "(real n \<le> pos) = False" by simp_all
    then show ?thesis
      unfolding code spec g by (simp add: i1 i2)
  qed
qed

lemma percentile_loop_sort:
  "xs \<noteq> [] \<Longrightarrow> percentile_loop (sort xs) ps = Inr (map (spec_percentile xs) ps)"
  by (induction ps) (simp_all add: percentile_score_sort)

text \<open>
  Claim C1. On a non-empty slice (of at most its capacity) \<open>SamplePercentilesFloat64\<close>
  does not panic and returns, for each requested \<open>p\<close>, the percentile of the
  specification: with \<open>pos = p * (n + 1)\<close>, the minimum if \<open>pos < 1\<close>, the maximum if
  \<open>pos \<ge> n\<close>, else \<open>lower + (pos - \<lfloor>pos\<rfloor>) * (upper - lower)\<close> for the elements of ranks
  \<open>\<lfloor>pos\<rfloor>\<close> and \<open>\<lfloor>pos\<rfloor> + 1\<close> of the sorted values. All the scores are read from the one
  sorted arrangement that the single \<open>sort.Sort\<close> leaves in the store.
  \<open>SamplePercentileFloat64\<close> returns the percentile of its one \<open>p\<close>.
\<close>

theorem percentiles_interpolate:
  assumes "0 < len values" and "len values \<le> slice_cap w values"
  shows "SamplePercentilesFloat64 w values ps
           = Done (map (spec_percentile (slice_contents w values)) ps) (sort_Sort w values)
       \<and> SamplePercentileFloat64 w values p
           = Done (spec_percentile (slice_contents w values) p) (sort_Sort w values)"
proof -
  have ne: "slice_contents w values \<noteq> []"
    using assms by (auto simp: slice_contents_def slice_cap_def)
  have *: "SamplePercentilesFloat64 w values qs
           = Done (map (spec_percentile (slice_contents w values)) qs) (sort_Sort w values)" for qs
    using assms(1) by (simp add: SamplePercentilesFloat64_def Let_def slice_contents_sort_Sort
        percentile_loop_sort [OF ne])
  show ?thesis
    by (simp add: * [of ps] SamplePercentileFloat64_def * [of "[p]"] index_def)
qed

theorem percentiles_interpolate_witness:
  "0 < len \<lparr>base = 0, len = 4\<rparr>
   \<and> len \<lparr>base = 0, len = 4\<rparr>
       \<le> slice_cap \<lparr>mem = (\<lambda>a. [])(0 := [30, 10, 20, 40]), nxt = 1\<rparr> \<lparr>base = 0, len = 4\<rparr>
   \<and> SamplePercentilesFloat64 \<lparr>mem = (\<lambda>a. [])(0 := [30, 10, 20, 40]), nxt = 1\<rparr>
         \<lparr>base = 0, len = 4\<rparr> [0, 3/10, 1/2, 1]
       = Done [10, 15, 25, 40]
           (sort_Sort \<lparr>mem = (\<lambda>a. [])(0 := [30, 10, 20, 40]), nxt = 1\<rparr> \<lparr>base = 0, len = 4\<rparr>)
   \<and> SamplePercentileFloat64 \<lparr>mem = (\<lambda>a. [])(0 := [30, 10, 20, 40]), nxt = 1\<rparr>
         \<lparr>base = 0, len = 4\<rparr> (1/2)
       = Done 25
           (sort_Sort \<lparr>mem = (\<lambda>a. [])(0 := [30, 10, 20, 40]), nxt = 1\<rparr> \<lparr>base = 0, len = 4\<rparr>)"
  using percentiles_interpolate
    [of "\<lparr>base = 0, len = 4\<rparr>" "\<lparr>mem = (\<lambda>a. [])(0 := [30, 10, 20, 40]), nxt = 1\<rparr>"
        "[0, 3/10, 1/2, 1]" "1/2"]
  by (simp add: spec_percentile_def rank_def slice_contents_def slice_cap_def Let_def)

lemma final_state_SamplePercentilesFloat64:
  "final_state (SamplePercentilesFloat64 w values ps)
     = (if len values > 0 then sort_Sort w values else w)"
  by (simp add: SamplePercentilesFloat64_def Let_def split: sum.split)

lemma final_state_SamplePercentileFloat64:
  "final_state (SamplePercentileFloat64 w values p)
     = final_state (SamplePercentilesFloat64 w values [p])"
  by (simp add: SamplePercentileFloat64_def split: outcome.split sum.split)

lemma slice_contents_len_0: "len values = 0 \<Longrightarrow> slice_contents w values = []"
  by (simp add: slice_contents_def)

lemma mem_copy_float64_other: "a \<noteq> base dst \<Longrightarrow> mem (copy_float64 w dst src) a = mem w a"
  by (simp add: copy_float64_def Let_def)

lemma mem_ExpDecay_Percentiles:
  "a < nxt w \<Longrightarrow> mem (final_state (ExpDecay_Percentiles w s ps)) a = mem w a"
  by (simp add: ExpDecay_Percentiles_def ExpDecay_Values_def make_float64_def Let_def
      final_state_SamplePercentilesFloat64 mem_sort_Sort_other mem_copy_float64_other)

text \<open>
  Claim C5, as the code has it. \<open>SamplePercentilesFloat64\<close> and
  \<open>SamplePercentileFloat64\<close> sort the slice they are given in place: after the call it
  holds the same elements in ascending order, and every other array is as before. The
  uniform sample and the snapshot pass their own slice \<open>s.values\<close>, which is thereby
  reordered; only the decaying sample passes a copy (\<open>s.Values()\<close>), so its percentiles
  leave every array that existed before the call as it was.
\<close>

theorem percentiles_sort_in_place:
  "slice_contents (final_state (SamplePercentilesFloat64 w values ps)) values
     = sort (slice_contents w values)
   \<and> slice_contents (final_state (SamplePercentileFloat64 w values p)) values
     = sort (slice_contents w values)
   \<and> mset (slice_contents (final_state (SamplePercentilesFloat64 w values ps)) values)
     = mset (slice_contents w values)
   \<and> (\<forall>a. a \<noteq> base values \<longrightarrow>
          mem (final_state (SamplePercentilesFloat64 w values ps)) a = mem w a)
   \<and> final_state (Uniform_Percentiles w u ps) = final_state (SamplePercentilesFloat64 w (u_values u) ps)
   \<and> final_state (Snapshot_Percentiles w s ps) = final_state (SamplePercentilesFloat64 w (snap_values s) ps)
   \<and> (\<forall>a. a < nxt w \<longrightarrow> mem (final_state (ExpDecay_Percentiles w e ps)) a = mem w a)"
proof -
  have 1: "slice_contents (final_state (SamplePercentilesFloat64 w values qs)) values
     = sort (slice_contents w values)" for qs
    by (simp add: final_state_SamplePercentilesFloat64 slice_contents_sort_Sort
        slice_contents_len_0)
  have 2: "\<forall>a. a \<noteq> base values \<longrightarrow>
          mem (final_state (SamplePercentilesFloat64 w values ps)) a = mem w a"
    by (simp add: final_state_SamplePercentilesFloat64 mem_sort_Sort_other)
  show ?thesis
    using 2 mem_ExpDecay_Percentiles [of _ w e ps]
    by (simp add: 1 final_state_SamplePercentileFloat64 Uniform_Percentiles_def
        Snapshot_Percentiles_def)
qed

theorem percentiles_sort_in_place_witness:
  "slice_contents (final_state (SamplePercentilesFloat64
       \<lparr>mem = (\<lambda>a. [])(0 := [30, 10, 20, 40], 1 := [2, 1]), nxt = 2\<rparr> \<lparr>base = 0, len = 4\<rparr> [1/2]))
     \<lparr>base = 0, len = 4\<rparr> = [10, 20, 30, 40]
   \<and> (1::nat) \<noteq> base \<lparr>base = 0, len = 4\<rparr>
   \<and> mem (final_state (SamplePercentilesFloat64
       \<lparr>mem = (\<lambda>a. [])(0 := [30, 10, 20, 40], 1 := [2, 1]), nxt = 2\<rparr> \<lparr>base = 0, len = 4\<rparr> [1/2])) 1
     = [2, 1]"
  using percentiles_sort_in_place
    [of "\<lparr>mem = (\<lambda>a. [])(0 := [30, 10, 20, 40], 1 := [2, 1]), nxt = 2\<rparr>" "\<lparr>base = 0, len = 4\<rparr>"
        "[1/2]" "1/2"]
  by (simp add: slice_contents_def)

text \<open>
  The claim as stated fails: the slice \<open>[30, 10, 20, 40]\<close> holds \<open>[10, 20, 30, 40]\<close>
  after its percentiles were computed.
\<close>

theorem percentiles_mutate_input_counterexample:
  "slice_contents \<lparr>mem = (\<lambda>a. [])(0 := [30, 10, 20, 40]), nxt = 1\<rparr> \<lparr>base = 0, len = 4\<rparr>
     = [30, 10, 20, 40]
   \<and> slice_contents (final_state (SamplePercentilesFloat64
         \<lparr>mem = (\<lambda>a. [])(0 := [30, 10, 20, 40]), nxt = 1\<rparr> \<lparr>base = 0, len = 4\<rparr> [1/2]))
       \<lparr>base = 0, len = 4\<rparr> = [10, 20, 30, 40]
   \<and> slice_contents (final_state (SamplePercentileFloat64
         \<lparr>mem = (\<lambda>a. [])(0 := [30, 10, 20, 40]), nxt = 1\<rparr> \<lparr>base = 0, len = 4\<rparr> (1/2)))
       \<lparr>base = 0, len = 4\<rparr> = [10, 20, 30, 40]
   \<and> slice_contents (final_state (SamplePercentilesFloat64
         \<lparr>mem = (\<lambda>a. [])(0 := [30, 10, 20, 40]), nxt = 1\<rparr> \<lparr>base = 0, len = 4\<rparr> [1/2]))
       \<lparr>base = 0, len = 4\<rparr>
     \<noteq> slice_contents \<lparr>mem = (\<lambda>a. [])(0 := [30, 10, 20, 40]), nxt = 1\<rparr> \<lparr>base = 0, len = 4\<rparr>"
  by (simp add: final_state_SamplePercentilesFloat64 final_state_SamplePercentileFloat64
      slice_contents_def sort_Sort_def)

section \<open>The uniform sample: invariant, update, count and size\<close>

lemma sint_count: "n < 2 ^ 63 \<Longrightarrow> sint (word_of_nat n :: 64 word) = int n"
proof -
  assume "n < 2 ^ 63"
  then have "int n < 2 ^ 63" by (metis of_nat_less_numeral_power_cancel_iff)
  then show ?thesis
    by (simp add: signed_of_nat signed_take_bit_int_eq_self)
qed

lemma NewUniformSampleFloat64_Done:
  assumes "NewUniformSampleFloat64 w c = Done s w1"
  shows "u_inv (s, w1)" and "u_reservoirSize s = c" and "u_count s = 0" and "len (u_values s) = 0"
    and "base (u_values s) = nxt w" and "nxt w1 = Suc (nxt w)"
  using assms
  by (auto simp: NewUniformSampleFloat64_def make_float64_def u_inv_def slice_cap_def
      split: if_splits)

lemma Uniform_Update_eq:
  assumes "u_inv (s, w)"
  shows "Uniform_Update (s, w) x r =
     (if int (len (u_values s)) < u_reservoirSize s then
        Done () (s\<lparr>u_count := u_count s + 1, u_values := (u_values s)\<lparr>len := len (u_values s) + 1\<rparr>\<rparr>,
                 w\<lparr>mem := (mem w)(base (u_values s) := (mem w (base (u_values s)))[len (u_values s) := x])\<rparr>)
      else if sint (u_count s + 1) \<le> 0 then Panic InvalidArgument (s\<lparr>u_count := u_count s + 1\<rparr>, w)
      else if r < u_reservoirSize s then
        (if 0 \<le> r then
           Done () (s\<lparr>u_count := u_count s + 1\<rparr>,
                    w\<lparr>mem := (mem w)(base (u_values s) := (mem w (base (u_values s)))[nat r := x])\<rparr>)
         else Panic IndexOutOfRange (s\<lparr>u_count := u_count s + 1\<rparr>, w))
      else Done () (s\<lparr>u_count := u_count s + 1\<rparr>, w))"
proof -
  from assms have c: "slice_cap w (u_values s) = nat (u_reservoirSize s)"
    and l: "len (u_values s) \<le> nat (u_reservoirSize s)" and z: "0 \<le> u_reservoirSize s"
    by (simp_all add: u_inv_def)
  show ?thesis
  proof (cases "int (len (u_values s)) < u_reservoirSize s")
    case True
    then have "len (u_values s) < slice_cap w (u_values s)" using c by linarith
    with True show ?thesis
      by (simp add: Uniform_Update_def Let_def append_float64_def)
  next
    case False
    with l z have "int (len (u_values s)) = u_reservoirSize s" by linarith
    with False show ?thesis
      by (simp add: Uniform_Update_def Let_def)
  qed
qed

lemma u_inv_Update:
  assumes "u_inv sw"
  shows "u_inv (final_state (Uniform_Update sw x r))"
proof -
  obtain s w where sw: "sw = (s, w)" by (cases sw)
  show ?thesis
    using assms unfolding sw Uniform_Update_eq [OF assms [unfolded sw]]
    by (auto simp: u_inv_def slice_cap_def)
qed

lemma u_inv_Clear:
  assumes "u_inv sw"
  shows "u_inv (final_state (Uniform_Clear sw))"
  using assms
  by (auto simp: Uniform_Clear_def make_float64_def u_inv_def slice_cap_def Let_def)

lemma u_apart_Update:
  assumes "u_apart b sw"
  shows "u_apart b (final_state (Uniform_Update sw x r))"
    and "mem (snd (final_state (Uniform_Update sw x r))) b = mem (snd sw) b"
proof -
  obtain s w where sw: "sw = (s, w)" by (cases sw)
  have i: "u_inv (s, w)" using assms by (simp add: u_apart_def sw)
  show "u_apart b (final_state (Uniform_Update sw x r))"
    using assms u_inv_Update [OF i, of x r] unfolding sw u_apart_def
    by (auto simp: Uniform_Update_eq [OF i])
  show "mem (snd (final_state (Uniform_Update sw x r))) b = mem (snd sw) b"
    using assms unfolding sw u_apart_def
    by (auto simp: Uniform_Update_eq [OF i])
qed

lemma u_apart_Clear:
  assumes "u_apart b sw"
  shows "u_apart b (final_state (Uniform_Clear sw))"
    and "mem (snd (final_state (Uniform_Clear sw))) b = mem (snd sw) b"
  using assms u_inv_Clear [of sw]
  by (auto simp: u_apart_def Uniform_Clear_def make_float64_def Let_def u_inv_def)

lemma u_inv_run: "u_inv sw \<Longrightarrow> u_inv (final_state (Uniform_run sw ops))"
proof (induction ops arbitrary: sw)
  case Nil
  then show ?case by simp
next
  case (Cons op ops)
  show ?case
  proof (cases op)
    case (U_Update x r)
    show ?thesis
      using u_inv_Update [OF Cons.prems, of x r] Cons.IH
      by (cases "Uniform_Update sw x r") (simp_all add: U_Update)
  next
    case U_Clear
    show ?thesis
      using u_inv_Clear [OF Cons.prems] Cons.IH
      by (cases "Uniform_Clear sw") (simp_all add: U_Clear)
  qed
qed

lemma u_apart_run:
  "u_apart b sw \<Longrightarrow>
     u_apart b (final_state (Uniform_run sw ops))
   \<and> mem (snd (final_state (Uniform_run sw ops))) b = mem (snd sw) b"
proof (induction ops arbitrary: sw)
  case Nil
  then show ?case by simp
next
  case (Cons op ops)
  show ?case
  proof (cases op)
    case (U_Update x r)
    show ?thesis
      using u_apart_Update [OF Cons.prems, of x r] Cons.IH
      by (cases "Uniform_Update sw x r") (auto simp add: U_Update)
  next
    case U_Clear
    show ?thesis
      using u_apart_Clear [OF Cons.prems] Cons.IH
      by (cases "Uniform_Clear sw") (auto simp add: U_Clear)
  qed
qed


lemma u_reservoirSize_Update:
  "u_reservoirSize (fst (final_state (Uniform_Update sw x r))) = u_reservoirSize (fst sw)"
  by (simp add: Uniform_Update_def Let_def split: prod.split)

lemma u_reservoirSize_Clear:
  "u_reservoirSize (fst (final_state (Uniform_Clear sw))) = u_reservoirSize (fst sw)"
  by (simp add: Uniform_Clear_def Let_def make_float64_def)

lemma u_reservoirSize_run:
  "u_reservoirSize (fst (final_state (Uniform_run sw ops))) = u_reservoirSize (fst sw)"
proof (induction ops arbitrary: sw)
  case Nil
  then show ?case by simp
next
  case (Cons op ops)
  show ?case
  proof (cases op)
    case (U_Update x r)
    show ?thesis
      using u_reservoirSize_Update [of sw x r] Cons.IH
      by (cases "Uniform_Update sw x r") (simp_all add: U_Update)
  next
    case U_Clear
    show ?thesis
      using u_reservoirSize_Clear [of sw] Cons.IH
      by (cases "Uniform_Clear sw") (simp_all add: U_Clear)
  qed
qed

lemma uniform_reachable:
  assumes "NewUniformSampleFloat64 w0 c = Done s0 w1" "Uniform_run (s0, w1) ops = Done () (s, w)"
  shows "u_inv (s, w)" "u_reservoirSize s = c"
  using assms u_inv_run [of "(s0, w1)" ops] u_reservoirSize_run [of "(s0, w1)" ops]
    NewUniformSampleFloat64_Done(1,2) [OF assms(1)]
  by simp_all

text \<open>
  Claim C2. In every state that a constructed uniform sample reaches, \<open>Update\<close> with a
  draw \<open>r\<close> in \<open>[0, count)\<close>, the count being the incremented one, returns with the count
  incremented; if fewer values than the capacity were retained the value is appended;
  else, if \<open>r\<close> is less than the capacity, \<open>values[r]\<close> is overwritten, and otherwise the
  retained values are as before. (The source compares \<open>r\<close> with \<open>len(s.values)\<close>, which
  is the capacity in that branch.)
\<close>

theorem uniform_update:
  assumes "NewUniformSampleFloat64 w0 c = Done s0 w1"
    and "Uniform_run (s0, w1) ops = Done () (s, w)"
    and "0 \<le> r" and "r < sint (u_count s + 1)"
  shows "\<exists>s' w'. Uniform_Update (s, w) x r = Done () (s', w')
      \<and> u_count s' = u_count s + 1
      \<and> u_reservoirSize s' = c
      \<and> slice_contents w' (u_values s') =
          (if Uniform_Size s < c then slice_contents w (u_values s) @ [x]
           else if r < c then (slice_contents w (u_values s))[nat r := x]
           else slice_contents w (u_values s))"
proof -
  note i = uniform_reachable [OF assms(1,2)]
  from i(1) have cap: "length (mem w (base (u_values s))) = nat (u_reservoirSize s)"
    by (simp add: u_inv_def slice_cap_def)
  have pos: "\<not> sint (u_count s + 1) \<le> 0" using assms(3,4) by linarith
  show ?thesis
  proof (cases "Uniform_Size s < c")
    case True
    then have "len (u_values s) < length (mem w (base (u_values s)))"
      using cap i(2) by (simp add: Uniform_Size_def)
    then have "take (Suc (len (u_values s))) ((mem w (base (u_values s)))[len (u_values s) := x])
        = take (len (u_values s)) (mem w (base (u_values s))) @ [x]"
      by (simp add: take_Suc_conv_app_nth)
    with True show ?thesis
      unfolding Uniform_Update_eq [OF i(1)] using i(2)
      by (simp add: Uniform_Size_def slice_contents_def)
  next
    case False
    with pos assms(3) show ?thesis
      unfolding Uniform_Update_eq [OF i(1)] using i(2)
      by (simp add: Uniform_Size_def slice_contents_def take_update_swap)
  qed
qed

theorem uniform_update_witness:
  "NewUniformSampleFloat64 \<lparr>mem = (\<lambda>a. []), nxt = 0\<rparr> 2
     = Done \<lparr>u_count = 0, u_reservoirSize = 2, u_values = \<lparr>base = 0, len = 0\<rparr>\<rparr>
         \<lparr>mem = (\<lambda>a. [])(0 := [0, 0]), nxt = 1\<rparr>
   \<and> Uniform_run (\<lparr>u_count = 0, u_reservoirSize = 2, u_values = \<lparr>base = 0, len = 0\<rparr>\<rparr>,
                   \<lparr>mem = (\<lambda>a. [])(0 := [0, 0]), nxt = 1\<rparr>) [U_Update 5 0, U_Update 7 0]
     = Done () (\<lparr>u_count = 2, u_reservoirSize = 2, u_values = \<lparr>base = 0, len = 2\<rparr>\<rparr>,
                \<lparr>mem = (\<lambda>a. [])(0 := [5, 7]), nxt = 1\<rparr>)
   \<and> (0::int) \<le> 1
   \<and> 1 < sint (u_count \<lparr>u_count = 2, u_reservoirSize = 2, u_values = \<lparr>base = 0, len = 2\<rparr>\<rparr> + 1)
   \<and> (\<exists>s' w'. Uniform_Update (\<lparr>u_count = 2, u_reservoirSize = 2, u_values = \<lparr>base = 0, len = 2\<rparr>\<rparr>,
                   \<lparr>mem = (\<lambda>a. [])(0 := [5, 7]), nxt = 1\<rparr>) 9 1 = Done () (s', w')
        \<and> u_count s' = 3 \<and> slice_contents w' (u_values s') = [5, 9])"
proof -
  have 1: "NewUniformSampleFloat64 \<lparr>mem = (\<lambda>a. []), nxt = 0\<rparr> 2
     = Done \<lparr>u_count = 0, u_reservoirSize = 2, u_values = \<lparr>base = 0, len = 0\<rparr>\<rparr>
         \<lparr>mem = (\<lambda>a. [])(0 := [0, 0]), nxt = 1\<rparr>"
    by (simp add: NewUniformSampleFloat64_def make_float64_def numeral_2_eq_2)
  have 2: "Uniform_run (\<lparr>u_count = 0, u_reservoirSize = 2, u_values = \<lparr>base = 0, len = 0\<rparr>\<rparr>,
                   \<lparr>mem = (\<lambda>a. [])(0 := [0, 0]), nxt = 1\<rparr>) [U_Update 5 0, U_Update 7 0]
     = Done () (\<lparr>u_count = 2, u_reservoirSize = 2, u_values = \<lparr>base = 0, len = 2\<rparr>\<rparr>,
                \<lparr>mem = (\<lambda>a. [])(0 := [5, 7]), nxt = 1\<rparr>)"
    by (simp add: Uniform_Update_def append_float64_def slice_cap_def Let_def)
  have 3: "(0::int) \<le> 1" by simp
  have 4: "1 < sint (u_count \<lparr>u_count = 2, u_reservoirSize = 2, u_values = \<lparr>base = 0, len = 2\<rparr>\<rparr> + 1)"
    by simp
  have 5: "\<exists>s' w'. Uniform_Update (\<lparr>u_count = 2, u_reservoirSize = 2, u_values = \<lparr>base = 0, len = 2\<rparr>\<rparr>,
                   \<lparr>mem = (\<lambda>a. [])(0 := [5, 7]), nxt = 1\<rparr>) 9 1 = Done () (s', w')
        \<and> u_count s' = 3 \<and> slice_contents w' (u_values s') = [5, 9]"
    using uniform_update [OF 1 2 3 4, of 9]
    by (simp add: Uniform_Size_def slice_contents_def) blast
  show ?thesis
    by (intro conjI 1 2 3 4 5)
qed

lemma u_updates_le: "u_updates n ops \<le> n + length ops"
proof (induction ops arbitrary: n)
  case Nil
  then show ?case by simp
next
  case (Cons op ops)
  show ?case
  proof (cases op)
    case (U_Update x r)
    then show ?thesis using Cons.IH [of "Suc n"] by simp
  next
    case U_Clear
    then show ?thesis using Cons.IH [of 0] by simp
  qed
qed

lemma update_step_uniform:
  assumes "u_inv (s, w)" and "0 \<le> r" and "\<not> sint (u_count s + 1) \<le> 0"
    and "len (u_values s) = min n (nat (u_reservoirSize s))"
  shows "\<exists>sw1. Uniform_Update (s, w) x r = Done () sw1
      \<and> u_count (fst sw1) = u_count s + 1
      \<and> len (u_values (fst sw1)) = min (Suc n) (nat (u_reservoirSize s))
      \<and> u_reservoirSize (fst sw1) = u_reservoirSize s"
proof (cases "int (len (u_values s)) < u_reservoirSize s")
  case True
  then have "min (Suc n) (nat (u_reservoirSize s)) = Suc (len (u_values s))"
    using assms(4) by linarith
  with True show ?thesis
    by (simp add: Uniform_Update_eq [OF assms(1)])
next
  case False
  then have "min (Suc n) (nat (u_reservoirSize s)) = len (u_values s)"
    using assms(4) by linarith
  with False assms(2,3) show ?thesis
    by (simp add: Uniform_Update_eq [OF assms(1)])
qed

lemma uniform_count_size:
  assumes "u_inv sw" and "\<forall>op \<in> set ops. u_draw_ok op" and "n + length ops < 2 ^ 63"
    and "u_count (fst sw) = word_of_nat n"
    and "len (u_values (fst sw)) = min n (nat (u_reservoirSize (fst sw)))"
  shows "\<exists>sw'. Uniform_run sw ops = Done () sw'
      \<and> u_count (fst sw') = word_of_nat (u_updates n ops)
      \<and> len (u_values (fst sw')) = min (u_updates n ops) (nat (u_reservoirSize (fst sw)))"
  using assms
proof (induction ops arbitrary: sw n)
  case Nil
  then show ?case by simp
next
  case (Cons op ops)
  obtain s w where sw: "sw = (s, w)" by (cases sw)
  show ?case
  proof (cases op)
    case (U_Update x r)
    have i: "u_inv (s, w)" using Cons.prems(1) by (simp add: sw)
    have r: "0 \<le> r" using Cons.prems(2) by (simp add: U_Update)
    have n: "Suc n < 2 ^ 63" using Cons.prems(3) by simp
    have c: "u_count s + 1 = word_of_nat (Suc n)" using Cons.prems(4) by (simp add: sw)
    have pos: "\<not> sint (u_count s + 1) \<le> 0"
      unfolding c using sint_count [OF n] by simp
    have l: "len (u_values s) = min n (nat (u_reservoirSize s))"
      using Cons.prems(5) by (simp add: sw)
    obtain sw1 where 1: "Uniform_Update (s, w) x r = Done () sw1"
      and 2: "u_count (fst sw1) = word_of_nat (Suc n)"
      and 3: "len (u_values (fst sw1)) = min (Suc n) (nat (u_reservoirSize s))"
      and 4: "u_reservoirSize (fst sw1) = u_reservoirSize s"
      using update_step_uniform [OF i r pos l, of x] c by auto
    have i1: "u_inv sw1" using u_inv_Update [OF i, of x r] 1 by simp
    have "\<exists>sw'. Uniform_run sw1 ops = Done () sw'
      \<and> u_count (fst sw') = word_of_nat (u_updates (Suc n) ops)
      \<and> len (u_values (fst sw')) = min (u_updates (Suc n) ops) (nat (u_reservoirSize (fst sw1)))"
      using Cons.prems(2,3) by (intro Cons.IH [OF i1 _ _ 2]) (simp_all add: 3 4)
    then show ?thesis by (simp add: U_Update sw 1 4)
  next
    case U_Clear
    have i: "u_inv (s, w)" using Cons.prems(1) by (simp add: sw)
    obtain sw1 where 1: "Uniform_Clear (s, w) = Done () sw1"
      and 2: "u_count (fst sw1) = word_of_nat 0"
      and 3: "len (u_values (fst sw1)) = min 0 (nat (u_reservoirSize s))"
      and 4: "u_reservoirSize (fst sw1) = u_reservoirSize s"
      using i by (auto simp: Uniform_Clear_def make_float64_def Let_def u_inv_def)
    have i1: "u_inv sw1" using u_inv_Clear [OF i] 1 by simp
    have "\<exists>sw'. Uniform_run sw1 ops = Done () sw'
      \<and> u_count (fst sw') = word_of_nat (u_updates 0 ops)
      \<and> len (u_values (fst sw')) = min (u_updates 0 ops) (nat (u_reservoirSize (fst sw1)))"
      using Cons.prems(2,3) by (intro Cons.IH [OF i1 _ _ 2]) (simp_all add: 3 4)
    then show ?thesis by (simp add: U_Clear sw 1 4)
  qed
qed

section \<open>Snapshots are isolated from their source\<close>

lemma Uniform_Snapshot_Done:
  assumes "u_inv (s, w)"
  shows "\<exists>w'. Uniform_Snapshot w s
           = Done \<lparr>snap_count = u_count s,
                   snap_values = \<lparr>base = nxt w, len = len (u_values s)\<rparr>\<rparr> w'
        \<and> slice_contents w' \<lparr>base = nxt w, len = len (u_values s)\<rparr> = slice_contents w (u_values s)
        \<and> u_apart (nxt w) (s, w')"
proof -
  let ?l = "len (u_values s)" and ?a = "mem w (base (u_values s))"
  from assms have b: "base (u_values s) < nxt w" and l: "?l \<le> length ?a"
    by (simp_all add: u_inv_def slice_cap_def)
  have "take ?l (take (min ?l (min ?l (length ?a))) (take ?l ?a)
          @ drop (min ?l (min ?l (length ?a))) (replicate ?l 0)) = take ?l ?a"
    using l by (simp add: min_absorb1)
  then show ?thesis
    using assms b
    by (simp add: Uniform_Snapshot_def make_float64_def copy_float64_def Let_def
        slice_contents_def u_apart_def u_inv_def slice_cap_def)
qed

lemma ExpDecay_Snapshot_Done:
  "\<exists>w'. ExpDecay_Snapshot w e
           = Done \<lparr>snap_count = e_count e,
                   snap_values = \<lparr>base = nxt w, len = length (Heap_Values (e_values e))\<rparr>\<rparr> w'
        \<and> slice_contents w' \<lparr>base = nxt w, len = length (Heap_Values (e_values e))\<rparr>
            = map item_v (Heap_Values (e_values e))
        \<and> (\<forall>a. a \<noteq> nxt w \<longrightarrow> mem w' a = mem w a)"
  by (simp add: ExpDecay_Snapshot_def make_float64_def copy_float64_def Let_def
      slice_contents_def)

lemma returned_SamplePercentilesFloat64:
  "returned (SamplePercentilesFloat64 w values ps)
     = (if len values > 0
        then (case percentile_loop (sort (slice_contents w values)) ps of
                Inl e \<Rightarrow> Inl e | Inr scores \<Rightarrow> Inr scores)
        else Inr (replicate (length ps) 0))"
  by (simp add: SamplePercentilesFloat64_def Let_def slice_contents_sort_Sort split: sum.split)

lemma returned_SamplePercentileFloat64:
  "returned (SamplePercentileFloat64 w values p)
     = (case returned (SamplePercentilesFloat64 w values [p]) of
          Inl e \<Rightarrow> Inl e | Inr scores \<Rightarrow> index scores 0)"
  by (simp add: SamplePercentileFloat64_def split: outcome.split sum.split)

lemma snapshot_statistics_cong:
  assumes "slice_contents w1 (snap_values s) = slice_contents w2 (snap_values s)"
  shows "Snapshot_Values w1 s = Snapshot_Values w2 s"
    and "Snapshot_Min w1 s = Snapshot_Min w2 s"
    and "Snapshot_Max w1 s = Snapshot_Max w2 s"
    and "Snapshot_Mean w1 s = Snapshot_Mean w2 s"
    and "Snapshot_Sum w1 s = Snapshot_Sum w2 s"
    and "Snapshot_Variance w1 s = Snapshot_Variance w2 s"
    and "Snapshot_StdDev w1 s = Snapshot_StdDev w2 s"
    and "returned (Snapshot_Percentile w1 s p) = returned (Snapshot_Percentile w2 s p)"
    and "returned (Snapshot_Percentiles w1 s ps) = returned (Snapshot_Percentiles w2 s ps)"
  using assms
  by (simp_all add: Snapshot_Values_def Snapshot_Min_def Snapshot_Max_def Snapshot_Mean_def
      Snapshot_Sum_def Snapshot_Variance_def Snapshot_StdDev_def Snapshot_Percentile_def
      Snapshot_Percentiles_def returned_SamplePercentileFloat64
      returned_SamplePercentilesFloat64)

text \<open>
  Claim C6. A snapshot of a uniform sample, taken in any state the sample reaches, holds
  the count and a copy of the values in a fresh array. Whatever \<open>Update\<close> and \<open>Clear\<close>
  calls follow on the sample (\<open>ops2\<close>, up to and including one that panics), the array of
  the snapshot is not written: in the store they leave, \<open>Values\<close>, \<open>Min\<close>, \<open>Max\<close>, \<open>Mean\<close>,
  \<open>Sum\<close>, \<open>Variance\<close>, \<open>StdDev\<close> and what \<open>Percentile\<close> and \<open>Percentiles\<close> return are
  what they were in the store that \<open>Snapshot\<close> left; \<open>Count\<close> reads the snapshot's own
  field. A snapshot of a decaying sample holds the count and the values of the heap's
  items in a fresh array of float64; \<open>update\<close> and \<open>Clear\<close> of the decaying sample write
  the sample's struct and the heap's array of items only, so they do not act on the
  store at all and the snapshot stays as \<open>Snapshot\<close> left it.
\<close>

theorem snapshot_isolation:
  assumes "NewUniformSampleFloat64 w0 c = Done s0 w1"
    and "Uniform_run (s0, w1) ops1 = Done () (s, w)"
    and "Uniform_Snapshot w s = Done snap w'"
    and "ExpDecay_Snapshot v e = Done esnap v'"
  shows "Snapshot_Count snap = Uniform_Count s
     \<and> Snapshot_Values w' snap = slice_contents w (u_values s)
     \<and> Snapshot_Values (snd (final_state (Uniform_run (s, w') ops2))) snap = Snapshot_Values w' snap
     \<and> Snapshot_Min (snd (final_state (Uniform_run (s, w') ops2))) snap = Snapshot_Min w' snap
     \<and> Snapshot_Max (snd (final_state (Uniform_run (s, w') ops2))) snap = Snapshot_Max w' snap
     \<and> Snapshot_Mean (snd (final_state (Uniform_run (s, w') ops2))) snap = Snapshot_Mean w' snap
     \<and> Snapshot_Sum (snd (final_state (Uniform_run (s, w') ops2))) snap = Snapshot_Sum w' snap
     \<and> Snapshot_Variance (snd (final_state (Uniform_run (s, w') ops2))) snap
         = Snapshot_Variance w' snap
     \<and> Snapshot_StdDev (snd (final_state (Uniform_run (s, w') ops2))) snap
         = Snapshot_StdDev w' snap
     \<and> returned (Snapshot_Percentile (snd (final_state (Uniform_run (s, w') ops2))) snap p)
         = returned (Snapshot_Percentile w' snap p)
     \<and> returned (Snapshot_Percentiles (snd (final_state (Uniform_run (s, w') ops2))) snap ps)
         = returned (Snapshot_Percentiles w' snap ps)
     \<and> Snapshot_Count esnap = ExpDecay_Count e
     \<and> Snapshot_Values v' esnap = map item_v (Heap_Values (e_values e))
     \<and> base (snap_values esnap) = nxt v"
proof -
  note i = uniform_reachable(1) [OF assms(1,2)]
  from Uniform_Snapshot_Done [OF i] assms(3)
  have snap: "snap = \<lparr>snap_count = u_count s,
                   snap_values = \<lparr>base = nxt w, len = len (u_values s)\<rparr>\<rparr>"
    and c: "slice_contents w' (snap_values snap) = slice_contents w (u_values s)"
    and a: "u_apart (nxt w) (s, w')"
    by auto
  have "mem (snd (final_state (Uniform_run (s, w') ops2))) (nxt w) = mem w' (nxt w)"
    using u_apart_run [OF a, of ops2] by simp
  then have eq: "slice_contents (snd (final_state (Uniform_run (s, w') ops2))) (snap_values snap)
      = slice_contents w' (snap_values snap)"
    by (simp add: snap slice_contents_def)
  from ExpDecay_Snapshot_Done [of v e] assms(4)
  have esnap: "esnap = \<lparr>snap_count = e_count e,
                   snap_values = \<lparr>base = nxt v, len = length (Heap_Values (e_values e))\<rparr>\<rparr>"
    and ec: "slice_contents v' (snap_values esnap) = map item_v (Heap_Values (e_values e))"
    by auto
  show ?thesis
    using snapshot_statistics_cong [OF eq] c ec
    by (simp add: Snapshot_Count_def Uniform_Count_def ExpDecay_Count_def Snapshot_Values_def
        snap esnap)
qed

theorem snapshot_isolation_witness:
  "NewUniformSampleFloat64 \<lparr>mem = (\<lambda>a. []), nxt = 0\<rparr> 2
     = Done \<lparr>u_count = 0, u_reservoirSize = 2, u_values = \<lparr>base = 0, len = 0\<rparr>\<rparr>
         \<lparr>mem = (\<lambda>a. [])(0 := [0, 0]), nxt = 1\<rparr>
   \<and> Uniform_run (\<lparr>u_count = 0, u_reservoirSize = 2, u_values = \<lparr>base = 0, len = 0\<rparr>\<rparr>,
                   \<lparr>mem = (\<lambda>a. [])(0 := [0, 0]), nxt = 1\<rparr>) [U_Update 5 0, U_Update 7 0]
     = Done () (\<lparr>u_count = 2, u_reservoirSize = 2, u_values = \<lparr>base = 0, len = 2\<rparr>\<rparr>,
                \<lparr>mem = (\<lambda>a. [])(0 := [5, 7]), nxt = 1\<rparr>)
   \<and> Uniform_Snapshot \<lparr>mem = (\<lambda>a. [])(0 := [5, 7]), nxt = 1\<rparr>
         \<lparr>u_count = 2, u_reservoirSize = 2, u_values = \<lparr>base = 0, len = 2\<rparr>\<rparr>
     = Done \<lparr>snap_count = 2, snap_values = \<lparr>base = 1, len = 2\<rparr>\<rparr>
         \<lparr>mem = (\<lambda>a. [])(0 := [5, 7], 1 := [5, 7]), nxt = 2\<rparr>
   \<and> ExpDecay_Snapshot \<lparr>mem = (\<lambda>a. []), nxt = 0\<rparr>
         \<lparr>e_alpha = 0, e_count = 1, e_reservoirSize = 1, e_t0 = 0, e_t1 = 10,
          e_values = \<lparr>heap_s = [\<lparr>item_k = Fin 1, item_v = 5\<rparr>], heap_len = 1\<rparr>\<rparr>
     = Done \<lparr>snap_count = 1, snap_values = \<lparr>base = 0, len = 1\<rparr>\<rparr>
         \<lparr>mem = (\<lambda>a. [])(0 := [5]), nxt = 1\<rparr>
   \<and> Snapshot_Values
         (snd (final_state (Uniform_run
            (\<lparr>u_count = 2, u_reservoirSize = 2, u_values = \<lparr>base = 0, len = 2\<rparr>\<rparr>,
             \<lparr>mem = (\<lambda>a. [])(0 := [5, 7], 1 := [5, 7]), nxt = 2\<rparr>)
            [U_Update 9 1, U_Clear, U_Update 3 0])))
         \<lparr>snap_count = 2, snap_values = \<lparr>base = 1, len = 2\<rparr>\<rparr> = [5, 7]
   \<and> Snapshot_Sum
         (snd (final_state (Uniform_run
            (\<lparr>u_count = 2, u_reservoirSize = 2, u_values = \<lparr>base = 0, len = 2\<rparr>\<rparr>,
             \<lparr>mem = (\<lambda>a. [])(0 := [5, 7], 1 := [5, 7]), nxt = 2\<rparr>)
            [U_Update 9 1, U_Clear, U_Update 3 0])))
         \<lparr>snap_count = 2, snap_values = \<lparr>base = 1, len = 2\<rparr>\<rparr> = 12
   \<and> Snapshot_Values \<lparr>mem = (\<lambda>a. [])(0 := [5]), nxt = 1\<rparr>
         \<lparr>snap_count = 1, snap_values = \<lparr>base = 0, len = 1\<rparr>\<rparr> = [5]"
proof -
  have 1: "NewUniformSampleFloat64 \<lparr>mem = (\<lambda>a. []), nxt = 0\<rparr> 2
     = Done \<lparr>u_count = 0, u_reservoirSize = 2, u_values = \<lparr>base = 0, len = 0\<rparr>\<rparr>
         \<lparr>mem = (\<lambda>a. [])(0 := [0, 0]), nxt = 1\<rparr>"
    by (simp add: NewUniformSampleFloat64_def make_float64_def numeral_2_eq_2)
  have 2: "Uniform_run (\<lparr>u_count = 0, u_reservoirSize = 2, u_values = \<lparr>base = 0, len = 0\<rparr>\<rparr>,
                   \<lparr>mem = (\<lambda>a. [])(0 := [0, 0]), nxt = 1\<rparr>) [U_Update 5 0, U_Update 7 0]
     = Done () (\<lparr>u_count = 2, u_reservoirSize = 2, u_values = \<lparr>base = 0, len = 2\<rparr>\<rparr>,
                \<lparr>mem = (\<lambda>a. [])(0 := [5, 7]), nxt = 1\<rparr>)"
    by (simp add: Uniform_Update_def append_float64_def slice_cap_def Let_def)
  have 3: "Uniform_Snapshot \<lparr>mem = (\<lambda>a. [])(0 := [5, 7]), nxt = 1\<rparr>
         \<lparr>u_count = 2, u_reservoirSize = 2, u_values = \<lparr>base = 0, len = 2\<rparr>\<rparr>
     = Done \<lparr>snap_count = 2, snap_values = \<lparr>base = 1, len = 2\<rparr>\<rparr>
         \<lparr>mem = (\<lambda>a. [])(0 := [5, 7], 1 := [5, 7]), nxt = 2\<rparr>"
    by (simp add: Uniform_Snapshot_def make_float64_def copy_float64_def slice_contents_def
        Let_def numeral_2_eq_2)
  have 4: "ExpDecay_Snapshot \<lparr>mem = (\<lambda>a. []), nxt = 0\<rparr>
         \<lparr>e_alpha = 0, e_count = 1, e_reservoirSize = 1, e_t0 = 0, e_t1 = 10,
          e_values = \<lparr>heap_s = [\<lparr>item_k = Fin 1, item_v = 5\<rparr>], heap_len = 1\<rparr>\<rparr>
     = Done \<lparr>snap_count = 1, snap_values = \<lparr>base = 0, len = 1\<rparr>\<rparr>
         \<lparr>mem = (\<lambda>a. [])(0 := [5]), nxt = 1\<rparr>"
    by (simp add: ExpDecay_Snapshot_def Heap_Values_def make_float64_def copy_float64_def Let_def)
  have 5: "Snapshot_Values \<lparr>mem = (\<lambda>a. [])(0 := [5, 7], 1 := [5, 7]), nxt = 2\<rparr>
         \<lparr>snap_count = 2, snap_values = \<lparr>base = 1, len = 2\<rparr>\<rparr> = [5, 7]"
    and 6: "Snapshot_Sum \<lparr>mem = (\<lambda>a. [])(0 := [5, 7], 1 := [5, 7]), nxt = 2\<rparr>
         \<lparr>snap_count = 2, snap_values = \<lparr>base = 1, len = 2\<rparr>\<rparr> = 12"
    by (simp_all add: Snapshot_Values_def Snapshot_Sum_def SampleSumFloat64_def slice_contents_def)
  note t = snapshot_isolation [OF 1 2 3 4, of "[U_Update 9 1, U_Clear, U_Update 3 0]"]
  show ?thesis
    apply (intro conjI 1 2 3 4)
    using t 5 apply simp
    using t 6 apply simp
    using t apply (simp add: Heap_Values_def)
    done
qed


section \<open>The heap: Push and Pop keep the heap order\<close>

declare up.simps [simp del] down.simps [simp del]

lemma length_swap [simp]: "length (swap s i j) = length s"
  by (simp add: swap_def)

lemma nth_swap:
  "i < length s \<Longrightarrow> j < length s \<Longrightarrow>
   swap s i j ! c = (if c = j then s ! i else if c = i then s ! j else s ! c)"
  by (simp add: swap_def nth_list_update)

lemma mset_swap_heap: "i < length s \<Longrightarrow> j < length s \<Longrightarrow> mset (swap s i j) = mset s"
  by (simp add: swap_def mset_swap)

lemma drop_swap: "i < n \<Longrightarrow> j < n \<Longrightarrow> drop n (swap s i j) = drop n s"
  by (simp add: swap_def)

lemma mset_take_eq:
  assumes "mset xs = mset ys" and "drop n xs = drop n ys"
  shows "mset (take n xs) = mset (take n ys)"
proof -
  have "mset (take n xs) + mset (drop n xs) = mset (take n ys) + mset (drop n ys)"
    using assms(1) by (simp flip: mset_append)
  then show ?thesis using assms(2) by simp
qed

lemma parent_less: "1 \<le> c \<Longrightarrow> (c - 1) div 2 < (c::nat)"
  by arith

lemma parent_eq_iff: "1 \<le> c \<Longrightarrow> (c - 1) div 2 = i \<longleftrightarrow> c = 2 * i + 1 \<or> c = 2 * i + (2::nat)"
  by arith

subsection \<open>The order of the priorities that are not NaN\<close>

lemma arctan_bound_2: "- 2 < arctan r" "arctan r < 2"
  using arctan_bounded [of r] pi_less_4 by simp_all

lemma flt_xord: "a \<noteq> NaN \<Longrightarrow> b \<noteq> NaN \<Longrightarrow> flt a b = (xord a < xord b)"
  using arctan_bound_2
  by (cases a; cases b) (simp_all add: arctan_less_iff less_imp_le not_less)

lemma fle_xord: "a \<noteq> NaN \<Longrightarrow> b \<noteq> NaN \<Longrightarrow> fle a b = (xord a \<le> xord b)"
  using arctan_bound_2
  by (cases a; cases b) (simp_all add: arctan_le_iff less_imp_le not_le)

lemma no_nan_nth: "no_nan s n \<Longrightarrow> i < n \<Longrightarrow> item_k (s ! i) \<noteq> NaN"
  by (simp add: no_nan_def)

lemma flt_xkey:
  "no_nan s n \<Longrightarrow> i < n \<Longrightarrow> j < n \<Longrightarrow>
   flt (item_k (s ! i)) (item_k (s ! j)) = (xkey (s ! i) < xkey (s ! j))"
  by (simp add: flt_xord no_nan_nth xkey_def)

lemma heap_ok_xkey:
  assumes "no_nan s n"
  shows "heap_ok s n = (\<forall>c \<in> {1..<n}. xkey (s ! ((c - 1) div 2)) \<le> xkey (s ! c))"
proof -
  have "fle (item_k (s ! ((c - 1) div 2))) (item_k (s ! c))
      = (xkey (s ! ((c - 1) div 2)) \<le> xkey (s ! c))" if "c \<in> {1..<n}" for c
  proof -
    have "(c - 1) div 2 < n" using that by auto
    then show ?thesis
      using that assms by (simp add: fle_xord no_nan_nth xkey_def)
  qed
  then show ?thesis by (simp add: heap_ok_def)
qed

lemma no_nan_swap:
  assumes "no_nan s n" "i < n" "j < n" "n \<le> length s"
  shows "no_nan (swap s i j) n"
  using assms by (auto simp: no_nan_def nth_swap)

subsection \<open>up\<close>

lemma up_props:
  "j < length s \<Longrightarrow>
     length (up s j) = length s \<and> mset (up s j) = mset s \<and> drop (Suc j) (up s j) = drop (Suc j) s"
proof (induction s j rule: up.induct)
  case (1 s j)
  show ?case
  proof (cases "(j - 1) div 2 = j \<or> \<not> flt (item_k (s ! j)) (item_k (s ! ((j - 1) div 2)))")
    case True
    then show ?thesis by (subst (1 2 3) up.simps) simp
  next
    case False
    then have j: "1 \<le> j" by (cases j) auto
    then have p: "(j - 1) div 2 < j" by (rule parent_less)
    then have pl: "(j - 1) div 2 < length s" using "1.prems" by simp
    have ih: "length (up (swap s ((j - 1) div 2) j) ((j - 1) div 2)) = length s
        \<and> mset (up (swap s ((j - 1) div 2) j) ((j - 1) div 2)) = mset s
        \<and> drop (Suc ((j - 1) div 2)) (up (swap s ((j - 1) div 2) j) ((j - 1) div 2))
            = drop (Suc ((j - 1) div 2)) (swap s ((j - 1) div 2) j)"
      using "1.IH" False pl "1.prems" by (simp add: mset_swap_heap)
    have "drop (Suc j) (up (swap s ((j - 1) div 2) j) ((j - 1) div 2))
        = drop (Suc j) (swap s ((j - 1) div 2) j)"
    proof -
      have "drop (Suc j - Suc ((j - 1) div 2)) (drop (Suc ((j - 1) div 2)) (up (swap s ((j - 1) div 2) j) ((j - 1) div 2)))
        = drop (Suc j - Suc ((j - 1) div 2)) (drop (Suc ((j - 1) div 2)) (swap s ((j - 1) div 2) j))"
        using ih by simp
      then show ?thesis using p by simp
    qed
    then have "drop (Suc j) (up (swap s ((j - 1) div 2) j) ((j - 1) div 2)) = drop (Suc j) s"
      using p by (simp add: drop_swap)
    with ih False show ?thesis by (subst (1 2 3) up.simps) simp
  qed
qed

lemma up_heap_ok: "up_inv s n j \<Longrightarrow> heap_ok (up s j) n \<and> no_nan (up s j) n"
proof (induction s j rule: up.induct)
  case (1 s j)
  define p where "p = (j - 1) div 2"
  from "1.prems" have jn: "j < n" and nl: "n \<le> length s" and nn: "no_nan s n"
    and A: "\<And>c. 1 \<le> c \<Longrightarrow> c < n \<Longrightarrow> c \<noteq> j \<Longrightarrow> xkey (s ! ((c - 1) div 2)) \<le> xkey (s ! c)"
    and B: "\<And>c. 1 \<le> c \<Longrightarrow> c < n \<Longrightarrow> (c - 1) div 2 = j \<Longrightarrow> 1 \<le> j \<Longrightarrow>
              xkey (s ! p) \<le> xkey (s ! c)"
    by (auto simp: up_inv_def p_def)
  have pn: "p < n" using jn unfolding p_def by arith
  have cond: "flt (item_k (s ! j)) (item_k (s ! ((j - 1) div 2))) = (xkey (s ! j) < xkey (s ! p))"
    using flt_xkey [OF nn jn pn] by (simp add: p_def)
  show ?case
  proof (cases "p = j \<or> \<not> (xkey (s ! j) < xkey (s ! p))")
    case True
    have "xkey (s ! ((c - 1) div 2)) \<le> xkey (s ! c)" if "1 \<le> c" "c < n" for c
    proof (cases "c = j")
      case False
      then show ?thesis using A that by simp
    next
      case c: True
      have "p < j" using that c parent_less [of j] by (simp add: p_def)
      with True c show ?thesis by (auto simp: p_def)
    qed
    then have "heap_ok s n" by (simp add: heap_ok_xkey [OF nn])
    moreover have "(j - 1) div 2 = j \<or> \<not> flt (item_k (s ! j)) (item_k (s ! ((j - 1) div 2)))"
      using True cond by (auto simp: p_def)
    then have "up s j = s"
      by (subst up.simps) simp
    ultimately show ?thesis using nn by simp
  next
    case False
    then have pj: "p \<noteq> j" and lt: "xkey (s ! j) < xkey (s ! p)" by auto
    have j: "1 \<le> j" using pj by (cases j) (auto simp: p_def)
    have p: "p < j" using j unfolding p_def by (rule parent_less)
    have pl: "p < length s" and jl: "j < length s" using p jn nl by simp_all
    have nth: "swap s p j ! c = (if c = j then s ! p else if c = p then s ! j else s ! c)" for c
      using nth_swap [OF pl jl] by simp
    have "up_inv (swap s p j) n p"
      unfolding up_inv_def
    proof (intro conjI ballI impI)
      show "p < n" using p jn by simp
      show "n \<le> length (swap s p j)" using nl by simp
      show "no_nan (swap s p j) n" using nn pn jn nl by (rule no_nan_swap)
    next
      fix c assume c: "c \<in> {1..<n}" and cp: "c \<noteq> p"
      then have c1: "1 \<le> c" and cn: "c < n" by simp_all
      define q where "q = (c - 1) div 2"
      have pc: "q < c" using c1 unfolding q_def by (rule parent_less)
      have "xkey (swap s p j ! q) \<le> xkey (swap s p j ! c)"
      proof (cases "c = j")
        case True
        then have "q = p" by (simp add: q_def p_def)
        with True show ?thesis using lt p by (simp add: nth)
      next
        case cj: False
        have Aq: "xkey (s ! q) \<le> xkey (s ! c)"
          using A [OF c1 cn cj] by (simp add: q_def)
        consider (a) "q = j" | (b) "q = p" | (d) "q \<noteq> j" "q \<noteq> p"
          by blast
        then show ?thesis
        proof cases
          case a
          then show ?thesis using B [OF c1 cn _ j] cj cp p by (simp add: nth q_def)
        next
          case b
          then show ?thesis using Aq lt cj cp p by (simp add: nth)
        next
          case d
          then show ?thesis using Aq cj cp by (simp add: nth)
        qed
      qed
      then show "xkey (swap s p j ! ((c - 1) div 2)) \<le> xkey (swap s p j ! c)"
        by (simp add: q_def)
    next
      fix c assume c: "c \<in> {1..<n}" and cp: "(c - 1) div 2 = p \<and> 1 \<le> p"
      then have c1: "1 \<le> c" and cn: "c < n" and p1: "1 \<le> p" and cpe: "(c - 1) div 2 = p"
        by simp_all
      define g where "g = (p - 1) div 2"
      have pp: "g < p" using p1 unfolding g_def by (rule parent_less)
      have c_ne_p: "c \<noteq> p" using cpe parent_less [OF c1] by simp
      have gp: "xkey (s ! g) \<le> xkey (s ! p)"
        using A [of p] p1 p jn by (simp add: g_def)
      have "xkey (swap s p j ! g) \<le> xkey (swap s p j ! c)"
      proof (cases "c = j")
        case True
        then show ?thesis using gp pp p by (simp add: nth)
      next
        case cj: False
        have "xkey (s ! p) \<le> xkey (s ! c)" using A [OF c1 cn cj] cpe by simp
        with gp show ?thesis using cj c_ne_p pp p by (simp add: nth)
      qed
      then show "xkey (swap s p j ! ((p - 1) div 2)) \<le> xkey (swap s p j ! c)"
        by (simp add: g_def)
    qed
    moreover have c': "\<not> ((j - 1) div 2 = j \<or> \<not> flt (item_k (s ! j)) (item_k (s ! ((j - 1) div 2))))"
      using False cond by (auto simp: p_def)
    ultimately have "heap_ok (up (swap s p j) p) n \<and> no_nan (up (swap s p j) p) n"
      using "1.IH" [OF c'] by (simp add: p_def)
    moreover have "up s j = up (swap s p j) p"
      using c' by (subst up.simps) (simp add: p_def)
    ultimately show ?thesis by simp
  qed
qed


subsection \<open>down\<close>

lemma down_unfold:
  "down s i n =
     (if 2 * i + 1 \<ge> n then s
      else let j = (if 2 * i + 2 < n \<and> \<not> flt (item_k (s ! (2 * i + 1))) (item_k (s ! (2 * i + 2)))
                    then 2 * i + 2 else 2 * i + 1)
           in if \<not> flt (item_k (s ! j)) (item_k (s ! i)) then s else down (swap s i j) j n)"
  by (subst down.simps) (simp add: Let_def)

lemma down_props:
  "n \<le> length s \<Longrightarrow>
     length (down s i n) = length s \<and> mset (down s i n) = mset s \<and> drop n (down s i n) = drop n s"
proof (induction s i n rule: down.induct)
  case (1 s i n)
  define j where "j = (if 2 * i + 2 < n \<and> \<not> flt (item_k (s ! (2 * i + 1))) (item_k (s ! (2 * i + 2)))
                    then 2 * i + 2 else 2 * i + 1)"
  show ?case
  proof (cases "2 * i + 1 \<ge> n \<or> \<not> flt (item_k (s ! j)) (item_k (s ! i))")
    case True
    then show ?thesis by (subst (1 2 3) down_unfold) (auto simp: j_def Let_def)
  next
    case False
    then have c: "\<not> 2 * i + 1 \<ge> n" and lt: "flt (item_k (s ! j)) (item_k (s ! i))" by auto
    have jn: "j < n" and ij: "i < j" using c by (auto simp: j_def)
    have ih: "length (down (swap s i j) j n) = length (swap s i j)
        \<and> mset (down (swap s i j) j n) = mset (swap s i j)
        \<and> drop n (down (swap s i j) j n) = drop n (swap s i j)"
      using "1.IH" c lt "1.prems" by (simp add: j_def)
    have "down s i n = down (swap s i j) j n"
      using c lt by (subst down_unfold) (simp add: j_def Let_def)
    with ih show ?thesis
      using jn ij "1.prems" by (simp add: mset_swap_heap drop_swap)
  qed
qed

lemma down_heap_ok: "down_inv s n i \<Longrightarrow> heap_ok (down s i n) n \<and> no_nan (down s i n) n"
proof (induction s i n rule: down.induct)
  case (1 s i n)
  define j1 where "j1 = 2 * i + 1"
  define j2 where "j2 = 2 * i + 2"
  define j where "j = (if j2 < n \<and> \<not> (xkey (s ! j1) < xkey (s ! j2)) then j2 else j1)"
  from "1.prems" have nl: "n \<le> length s" and nn: "no_nan s n"
    and A: "\<And>c. 1 \<le> c \<Longrightarrow> c < n \<Longrightarrow> (c - 1) div 2 \<noteq> i \<Longrightarrow>
              xkey (s ! ((c - 1) div 2)) \<le> xkey (s ! c)"
    and B: "\<And>c. 1 \<le> c \<Longrightarrow> c < n \<Longrightarrow> (c - 1) div 2 = i \<Longrightarrow> 1 \<le> i \<Longrightarrow>
              xkey (s ! ((i - 1) div 2)) \<le> xkey (s ! c)"
    by (auto simp: down_inv_def)
  have child: "(c - 1) div 2 = i \<longleftrightarrow> c = j1 \<or> c = j2" if "1 \<le> c" for c
    using parent_eq_iff [OF that, of i] by (simp add: j1_def j2_def)
  define jf where "jf = (if 2 * i + 2 < n \<and> \<not> flt (item_k (s ! (2 * i + 1))) (item_k (s ! (2 * i + 2)))
                    then 2 * i + 2 else 2 * i + 1)"
  have unf0: "down s i n = s" if "j1 \<ge> n"
    using that by (subst down_unfold) (simp add: j1_def)
  have unfF: "down s i n = (if \<not> flt (item_k (s ! jf)) (item_k (s ! i)) then s
      else down (swap s i jf) jf n)" if "\<not> j1 \<ge> n"
    using that by (subst down_unfold) (simp add: jf_def j1_def Let_def)
  show ?case
  proof (cases "j1 \<ge> n")
    case True
    have "xkey (s ! ((c - 1) div 2)) \<le> xkey (s ! c)" if "1 \<le> c" "c < n" for c
    proof -
      have "(c - 1) div 2 \<noteq> i" using child [OF that(1)] that(2) True by (auto simp: j1_def j2_def)
      then show ?thesis using A that by simp
    qed
    then have "heap_ok s n" by (simp add: heap_ok_xkey [OF nn])
    with True nn show ?thesis by (simp add: unf0)
  next
    case c: False
    then have j1n: "j1 < n" by simp
    have i_n: "i < n" using j1n by (simp add: j1_def)
    have jfj: "jf = j"
    proof (cases "j2 < n")
      case True
      from flt_xkey [OF nn j1n True] show ?thesis
        by (simp add: jf_def j_def j1_def j2_def)
    next
      case False
      then show ?thesis by (simp add: jf_def j_def j1_def j2_def)
    qed
    have jn: "j < n" and ij: "i < j" and jc: "j = j1 \<or> j = j2"
      using c by (auto simp: j_def j1_def j2_def)
    have jmin: "xkey (s ! j) \<le> xkey (s ! c)" if "c = j1 \<or> c = j2" "c < n" for c
      using that by (auto simp: j_def j2_def j1_def)
    have pj: "(j - 1) div 2 = i" using jc child [of j] ij by auto
    have cond: "flt (item_k (s ! j)) (item_k (s ! i)) = (xkey (s ! j) < xkey (s ! i))"
      using nn jn i_n by (rule flt_xkey)
    have unf: "down s i n = (if \<not> (xkey (s ! j) < xkey (s ! i)) then s else down (swap s i j) j n)"
      using unfF [OF c] by (simp add: jfj cond)
    show ?thesis
    proof (cases "xkey (s ! j) < xkey (s ! i)")
      case False
      have "xkey (s ! ((c - 1) div 2)) \<le> xkey (s ! c)" if "1 \<le> c" "c < n" for c
      proof (cases "(c - 1) div 2 = i")
        case True
        then have "c = j1 \<or> c = j2" using child [OF that(1)] by simp
        then have "xkey (s ! j) \<le> xkey (s ! c)" using jmin that(2) by simp
        with False True show ?thesis by simp
      next
        case False
        then show ?thesis using A that by simp
      qed
      then have "heap_ok s n" by (simp add: heap_ok_xkey [OF nn])
      with False nn show ?thesis by (simp add: unf)
    next
      case lt: True
      have il: "i < length s" and jl: "j < length s" using ij jn nl by simp_all
      have nth: "swap s i j ! c = (if c = j then s ! i else if c = i then s ! j else s ! c)" for c
        using nth_swap [OF il jl] by simp
      have "down_inv (swap s i j) n j"
        unfolding down_inv_def
      proof (intro conjI ballI impI)
        show "n \<le> length (swap s i j)" using nl by simp
        show "no_nan (swap s i j) n" using nn i_n jn nl by (rule no_nan_swap)
      next
        fix c assume "c \<in> {1..<n}" and cp: "(c - 1) div 2 \<noteq> j"
        then have c1: "1 \<le> c" and cn: "c < n" by simp_all
        define q where "q = (c - 1) div 2"
        have qc: "q < c" using c1 unfolding q_def by (rule parent_less)
        have qj: "q \<noteq> j" using cp by (simp add: q_def)
        have "xkey (swap s i j ! q) \<le> xkey (swap s i j ! c)"
        proof (cases "q = i")
          case True
          then have cc: "c = j1 \<or> c = j2" using child [OF c1] by (simp add: q_def)
          show ?thesis
          proof (cases "c = j")
            case True
            with \<open>q = i\<close> lt ij show ?thesis by (simp add: nth)
          next
            case False
            with \<open>q = i\<close> jmin [OF cc cn] qc ij show ?thesis by (simp add: nth)
          qed
        next
          case qi: False
          then have cj: "c \<noteq> j" using pj by (auto simp: q_def)
          have Aq: "xkey (s ! q) \<le> xkey (s ! c)"
            using A [OF c1 cn] qi by (simp add: q_def)
          show ?thesis
          proof (cases "c = i")
            case True
            then have i1: "1 \<le> i" using c1 by simp
            have "xkey (s ! ((i - 1) div 2)) \<le> xkey (s ! j)"
              using B [of j] ij jn pj i1 by simp
            then have "xkey (s ! q) \<le> xkey (s ! j)" using True by (simp add: q_def)
            with True qi qj ij show ?thesis by (simp add: nth)
          next
            case False
            with Aq qi qj cj show ?thesis by (simp add: nth)
          qed
        qed
        then show "xkey (swap s i j ! ((c - 1) div 2)) \<le> xkey (swap s i j ! c)"
          by (simp add: q_def)
      next
        fix c assume "c \<in> {1..<n}" and cp: "(c - 1) div 2 = j \<and> 1 \<le> j"
        then have c1: "1 \<le> c" and cn: "c < n" and cpe: "(c - 1) div 2 = j" by simp_all
        have jc: "j < c" using parent_less [OF c1] cpe by simp
        have "xkey (s ! j) \<le> xkey (s ! c)"
          using A [OF c1 cn] cpe ij by simp
        then have "xkey (swap s i j ! i) \<le> xkey (swap s i j ! c)"
          using jc ij by (simp add: nth)
        then show "xkey (swap s i j ! ((j - 1) div 2)) \<le> xkey (swap s i j ! c)"
          unfolding pj .
      qed
      moreover have "flt (item_k (s ! jf)) (item_k (s ! i))"
        using lt by (simp add: jfj cond)
      ultimately have "heap_ok (down (swap s i j) j n) n \<and> no_nan (down (swap s i j) j n) n"
        using "1.IH" [folded jf_def] c by (simp add: j1_def jfj)
      with lt show ?thesis by (simp add: unf)
    qed
  qed
qed

subsection \<open>Push and Pop\<close>

lemma heap_ok_root_min:
  assumes "heap_ok s n" and "no_nan s n" and "i < n"
  shows "xkey (s ! 0) \<le> xkey (s ! i)"
  using assms(3)
proof (induction i rule: less_induct)
  case (less i)
  show ?case
  proof (cases "i = 0")
    case True
    then show ?thesis by simp
  next
    case False
    then have i1: "1 \<le> i" by simp
    have p: "(i - 1) div 2 < i" using i1 by (rule parent_less)
    have "xkey (s ! ((i - 1) div 2)) \<le> xkey (s ! i)"
      using assms(1) less.prems i1 by (simp add: heap_ok_xkey [OF assms(2)])
    moreover have "xkey (s ! 0) \<le> xkey (s ! ((i - 1) div 2))"
      using less.IH [OF p] p less.prems by simp
    ultimately show ?thesis by simp
  qed
qed

text \<open>What \<open>Push\<close> and \<open>Pop\<close> do to the slice, whatever the priorities are.\<close>

lemma Heap_Push_done:
  assumes "heap_len h < length (heap_s h)"
  shows "\<exists>h'. Heap_Push h x = Done () h'
      \<and> heap_s h' = up ((heap_s h)[heap_len h := x]) (heap_len h)
      \<and> heap_len h' = Suc (heap_len h) \<and> length (heap_s h') = length (heap_s h)
      \<and> mset (Heap_Values h') = add_mset x (mset (Heap_Values h))
      \<and> drop (Suc (heap_len h)) (heap_s h') = drop (Suc (heap_len h)) (heap_s h)"
proof -
  define n where "n = heap_len h"
  define s where "s = heap_s h"
  define s1 where "s1 = s[n := x]"
  have nl: "n < length s" using assms by (simp add: n_def s_def)
  have nl1: "n < length s1" using nl by (simp add: s1_def)
  note u = up_props [OF nl1]
  have "mset (take (Suc n) (up s1 n)) = mset (take (Suc n) s1)"
    using u by (intro mset_take_eq) simp_all
  also have "take (Suc n) s1 = take n s @ [x]"
    using nl by (simp add: s1_def take_Suc_conv_app_nth)
  finally have m: "mset (take (Suc n) (up s1 n)) = add_mset x (mset (take n s))" by simp
  have d: "drop (Suc n) (up s1 n) = drop (Suc n) s" using u by (simp add: s1_def)
  have "Heap_Push h x = Done () (h\<lparr>heap_s := up s1 n, heap_len := Suc n\<rparr>)"
    using nl by (simp add: Heap_Push_def Let_def s1_def n_def s_def)
  then show ?thesis
    using u m d nl
    by (simp add: Heap_Values_def s1_def flip: n_def s_def)
qed

lemma Heap_Pop_done:
  assumes "0 < heap_len h" and "heap_len h \<le> length (heap_s h)"
  shows "\<exists>y h'. Heap_Pop h = Done y h'
      \<and> heap_s h' = down (swap (heap_s h) 0 (heap_len h - 1)) 0 (heap_len h - 1)
      \<and> y = heap_s h ! 0
      \<and> heap_len h' = heap_len h - 1 \<and> length (heap_s h') = length (heap_s h)
      \<and> mset (Heap_Values h) = add_mset y (mset (Heap_Values h'))"
proof -
  define n where "n = heap_len h - 1"
  define s where "s = heap_s h"
  define s1 where "s1 = swap s 0 n"
  define s2 where "s2 = down s1 0 n"
  have len: "heap_len h = Suc n" using assms(1) by (simp add: n_def)
  have nl: "n < length s" using assms(2) len by (simp add: s_def)
  have s0: "0 < length s" using nl by (cases s) simp_all
  have nth1: "s1 ! c = (if c = n then s ! 0 else if c = 0 then s ! n else s ! c)" for c
    using nth_swap [OF s0 nl, of c] by (simp add: s1_def)
  have nl1: "n \<le> length s1" using nl by (simp add: s1_def)
  note d = down_props [OF nl1, of 0, folded s2_def]
  have l2: "length s2 = length s" using d by (simp add: s1_def)
  have "s2 ! n = drop n s2 ! 0" using nl l2 by simp
  also have "\<dots> = drop n s1 ! 0" using d by simp
  also have "\<dots> = s1 ! n" using nl by (simp add: s1_def)
  finally have y: "s2 ! n = s ! 0" by (simp add: nth1)
  have m2: "mset (take n s2) = mset (take n s1)"
    using d by (intro mset_take_eq) simp_all
  have "mset (take (Suc n) s) = mset (take (Suc n) s1)"
    unfolding s1_def using nl mset_swap_heap [OF s0 nl]
    by (intro mset_take_eq) (simp_all add: drop_swap)
  also have "take (Suc n) s1 = take n s1 @ [s1 ! n]"
    using nl by (simp add: take_Suc_conv_app_nth s1_def)
  finally have m: "mset (take (Suc n) s) = add_mset (s ! 0) (mset (take n s2))"
    using m2 by (simp add: nth1)
  have "Heap_Pop h = Done (s2 ! n) (h\<lparr>heap_s := s2, heap_len := n\<rparr>)"
    using len by (simp add: Heap_Pop_def Let_def s2_def s1_def s_def n_def)
  then show ?thesis
    using l2 m y len
    by (simp add: Heap_Values_def s2_def s1_def flip: s_def n_def)
qed

text \<open>The heap order, for priorities that are not NaN.\<close>

lemma Heap_Push_ok:
  assumes "heap_inv h" and "heap_no_nan h" and "item_k x \<noteq> NaN"
    and "heap_len h < length (heap_s h)" and "Heap_Push h x = Done () h'"
  shows "heap_inv h' \<and> heap_no_nan h'"
proof -
  define n where "n = heap_len h"
  define s where "s = heap_s h"
  define s1 where "s1 = s[n := x]"
  have nl: "n < length s" using assms(4) by (simp add: n_def s_def)
  have nn: "no_nan s n" using assms(2) by (simp add: heap_no_nan_def n_def s_def)
  have ok: "\<forall>c \<in> {1..<n}. xkey (s ! ((c - 1) div 2)) \<le> xkey (s ! c)"
    using assms(1) heap_ok_xkey [OF nn] by (simp add: heap_inv_def n_def s_def)
  have nn1: "no_nan s1 (Suc n)"
    using nn assms(3) nl by (auto simp: no_nan_def s1_def nth_list_update)
  have "up_inv s1 (Suc n) n"
    unfolding up_inv_def
  proof (intro conjI ballI impI)
    show "n < Suc n" by simp
    show "Suc n \<le> length s1" using nl by (simp add: s1_def)
    show "no_nan s1 (Suc n)" by (rule nn1)
  next
    fix c assume "c \<in> {1..<Suc n}" and "c \<noteq> n"
    then have c1: "1 \<le> c" and cn: "c < n" by simp_all
    have "(c - 1) div 2 < c" using c1 by (rule parent_less)
    then show "xkey (s1 ! ((c - 1) div 2)) \<le> xkey (s1 ! c)"
      using ok c1 cn by (simp add: s1_def)
  next
    fix c assume "c \<in> {1..<Suc n}" and "(c - 1) div 2 = n \<and> 1 \<le> n"
    then have "1 \<le> c" "c \<le> n" "(c - 1) div 2 = n" by simp_all
    then have False using parent_less [of c] by simp
    then show "xkey (s1 ! ((n - 1) div 2)) \<le> xkey (s1 ! c)" ..
  qed
  then have ok': "heap_ok (up s1 n) (Suc n) \<and> no_nan (up s1 n) (Suc n)" by (rule up_heap_ok)
  from Heap_Push_done [OF assms(4), of x] assms(5)
  have "heap_s h' = up s1 n" and "heap_len h' = Suc n" and "length (heap_s h') = length s"
    by (auto simp: s1_def s_def n_def)
  then show ?thesis
    using ok' nl by (simp add: heap_inv_def heap_no_nan_def)
qed

lemma Heap_Pop_ok:
  assumes "heap_inv h" and "heap_no_nan h" and "0 < heap_len h"
    and "Heap_Pop h = Done y h'"
  shows "heap_inv h' \<and> heap_no_nan h'
      \<and> (\<forall>z \<in> set (Heap_Values h). fle (item_k y) (item_k z))"
proof -
  define n where "n = heap_len h - 1"
  define s where "s = heap_s h"
  define s1 where "s1 = swap s 0 n"
  have len: "heap_len h = Suc n" using assms(3) by (simp add: n_def)
  have le: "heap_len h \<le> length (heap_s h)" using assms(1) by (simp add: heap_inv_def)
  have nl: "n < length s" using le len by (simp add: s_def)
  have nn: "no_nan s (Suc n)" using assms(2) len by (simp add: heap_no_nan_def s_def)
  have hok: "heap_ok s (Suc n)" using assms(1) len by (simp add: heap_inv_def s_def)
  have ok: "\<forall>c \<in> {1..<Suc n}. xkey (s ! ((c - 1) div 2)) \<le> xkey (s ! c)"
    using hok heap_ok_xkey [OF nn] by simp
  have s0: "0 < length s" using nl by (cases s) simp_all
  have nth1: "s1 ! c = (if c = n then s ! 0 else if c = 0 then s ! n else s ! c)" for c
    using nth_swap [OF s0 nl, of c] by (simp add: s1_def)
  have nn1: "no_nan s1 n"
    using nn by (auto simp: no_nan_def nth1)
  have "down_inv s1 n 0"
    unfolding down_inv_def
  proof (intro conjI ballI impI)
    show "n \<le> length s1" using nl by (simp add: s1_def)
    show "no_nan s1 n" by (rule nn1)
  next
    fix c assume "c \<in> {1..<n}" and p0: "(c - 1) div 2 \<noteq> 0"
    then have c1: "1 \<le> c" and cn: "c < n" by simp_all
    have "(c - 1) div 2 < c" using c1 by (rule parent_less)
    then show "xkey (s1 ! ((c - 1) div 2)) \<le> xkey (s1 ! c)"
      using ok c1 cn p0 by (simp add: nth1)
  next
    fix c assume "c \<in> {1..<n}" and "(c - 1) div 2 = 0 \<and> 1 \<le> (0::nat)"
    then show "xkey (s1 ! ((0 - 1) div 2)) \<le> xkey (s1 ! c)" by simp
  qed
  then have ok2: "heap_ok (down s1 0 n) n \<and> no_nan (down s1 0 n) n" by (rule down_heap_ok)
  from Heap_Pop_done [OF assms(3) le] assms(4)
  have h': "heap_s h' = down s1 0 n" "heap_len h' = n" "length (heap_s h') = length s"
    and y: "y = s ! 0"
    by (auto simp: s1_def s_def n_def)
  have mn: "\<forall>z \<in> set (take (Suc n) s). fle (item_k (s ! 0)) (item_k z)"
  proof
    fix z assume "z \<in> set (take (Suc n) s)"
    then obtain i where i: "i < Suc n" "z = s ! i"
      using nl by (auto simp: in_set_conv_nth)
    have "xkey (s ! 0) \<le> xkey (s ! i)" using heap_ok_root_min [OF hok nn i(1)] .
    moreover have "item_k (s ! 0) \<noteq> NaN" "item_k (s ! i) \<noteq> NaN"
      using nn i(1) by (simp_all add: no_nan_nth)
    ultimately show "fle (item_k (s ! 0)) (item_k z)"
      by (simp add: fle_xord xkey_def i(2))
  qed
  show ?thesis
    using ok2 h' y mn nl len
    by (simp add: heap_inv_def heap_no_nan_def Heap_Values_def flip: s_def)
qed

text \<open>
  Claim C8, as the code has it. Let the heap satisfy the min-heap invariant (the priority of every parent
  is at most the priorities of its children) with no NaN among its priorities; NaN is
  not ordered with any float64. Then \<open>Pop\<close>, and \<open>Push\<close> of an item whose priority is
  not NaN, preserve the invariant, also when they panic, which leaves the heap as it
  was. \<open>Push\<close> within the capacity returns and adds the item to the items of the heap.
  \<open>Pop\<close> on a non-empty heap returns an item of the heap whose priority is at most the
  priority of every item of the heap, and removes it.
\<close>

theorem heap_push_pop:
  assumes "heap_inv h" and "heap_no_nan h" and "item_k x \<noteq> NaN"
  shows "heap_inv (final_state (Heap_Push h x)) \<and> heap_no_nan (final_state (Heap_Push h x))
     \<and> heap_inv (final_state (Heap_Pop h)) \<and> heap_no_nan (final_state (Heap_Pop h))
     \<and> (heap_len h < length (heap_s h) \<longrightarrow>
          (\<exists>h'. Heap_Push h x = Done () h' \<and> heap_inv h'
             \<and> mset (Heap_Values h') = add_mset x (mset (Heap_Values h))))
     \<and> (0 < heap_len h \<longrightarrow>
          (\<exists>y h'. Heap_Pop h = Done y h' \<and> heap_inv h'
             \<and> mset (Heap_Values h) = add_mset y (mset (Heap_Values h'))
             \<and> (\<forall>z \<in> set (Heap_Values h). fle (item_k y) (item_k z))))"
proof -
  have le: "heap_len h \<le> length (heap_s h)" using assms(1) by (simp add: heap_inv_def)
  have push: "\<exists>h'. Heap_Push h x = Done () h' \<and> heap_inv h' \<and> heap_no_nan h'
             \<and> mset (Heap_Values h') = add_mset x (mset (Heap_Values h))"
    if room: "heap_len h < length (heap_s h)"
  proof -
    from Heap_Push_done [OF room, of x] obtain h' where
      d: "Heap_Push h x = Done () h'"
      and m: "mset (Heap_Values h') = add_mset x (mset (Heap_Values h))"
      by blast
    from Heap_Push_ok [OF assms room d] d m show ?thesis by blast
  qed
  have pop: "\<exists>y h'. Heap_Pop h = Done y h' \<and> heap_inv h' \<and> heap_no_nan h'
             \<and> mset (Heap_Values h) = add_mset y (mset (Heap_Values h'))
             \<and> (\<forall>z \<in> set (Heap_Values h). fle (item_k y) (item_k z))"
    if pos: "0 < heap_len h"
  proof -
    from Heap_Pop_done [OF pos le] obtain y h' where
      d: "Heap_Pop h = Done y h'"
      and m: "mset (Heap_Values h) = add_mset y (mset (Heap_Values h'))"
      by blast
    from Heap_Pop_ok [OF assms(1,2) pos d] d m show ?thesis by blast
  qed
  have 1: "heap_inv (final_state (Heap_Push h x)) \<and> heap_no_nan (final_state (Heap_Push h x))"
  proof (cases "heap_len h < length (heap_s h)")
    case True
    from push [OF True] show ?thesis by auto
  next
    case False
    then show ?thesis using assms by (simp add: Heap_Push_def Let_def)
  qed
  have 2: "heap_inv (final_state (Heap_Pop h)) \<and> heap_no_nan (final_state (Heap_Pop h))"
  proof (cases "0 < heap_len h")
    case True
    from pop [OF True] show ?thesis by auto
  next
    case False
    then show ?thesis using assms by (simp add: Heap_Pop_def)
  qed
  show ?thesis
    using 1 2 push pop by blast
qed

theorem heap_push_pop_witness:
  "heap_inv \<lparr>heap_s = [\<lparr>item_k = Fin 1, item_v = 10\<rparr>, \<lparr>item_k = PInf, item_v = 30\<rparr>,
                       \<lparr>item_k = Fin 2, item_v = 20\<rparr>, \<lparr>item_k = Fin 0, item_v = 0\<rparr>], heap_len = 3\<rparr>
   \<and> heap_no_nan \<lparr>heap_s = [\<lparr>item_k = Fin 1, item_v = 10\<rparr>, \<lparr>item_k = PInf, item_v = 30\<rparr>,
                       \<lparr>item_k = Fin 2, item_v = 20\<rparr>, \<lparr>item_k = Fin 0, item_v = 0\<rparr>], heap_len = 3\<rparr>
   \<and> item_k \<lparr>item_k = Fin 0, item_v = 5\<rparr> \<noteq> NaN
   \<and> Heap_Push \<lparr>heap_s = [\<lparr>item_k = Fin 1, item_v = 10\<rparr>, \<lparr>item_k = PInf, item_v = 30\<rparr>,
                       \<lparr>item_k = Fin 2, item_v = 20\<rparr>, \<lparr>item_k = Fin 0, item_v = 0\<rparr>], heap_len = 3\<rparr>
         \<lparr>item_k = Fin 0, item_v = 5\<rparr>
       = Done () \<lparr>heap_s = [\<lparr>item_k = Fin 0, item_v = 5\<rparr>, \<lparr>item_k = Fin 1, item_v = 10\<rparr>,
                       \<lparr>item_k = Fin 2, item_v = 20\<rparr>, \<lparr>item_k = PInf, item_v = 30\<rparr>], heap_len = 4\<rparr>
   \<and> heap_inv \<lparr>heap_s = [\<lparr>item_k = Fin 0, item_v = 5\<rparr>, \<lparr>item_k = Fin 1, item_v = 10\<rparr>,
                       \<lparr>item_k = Fin 2, item_v = 20\<rparr>, \<lparr>item_k = PInf, item_v = 30\<rparr>], heap_len = 4\<rparr>
   \<and> Heap_Pop \<lparr>heap_s = [\<lparr>item_k = Fin 1, item_v = 10\<rparr>, \<lparr>item_k = PInf, item_v = 30\<rparr>,
                       \<lparr>item_k = Fin 2, item_v = 20\<rparr>, \<lparr>item_k = Fin 0, item_v = 0\<rparr>], heap_len = 3\<rparr>
       = Done \<lparr>item_k = Fin 1, item_v = 10\<rparr>
           \<lparr>heap_s = [\<lparr>item_k = Fin 2, item_v = 20\<rparr>, \<lparr>item_k = PInf, item_v = 30\<rparr>,
                       \<lparr>item_k = Fin 1, item_v = 10\<rparr>, \<lparr>item_k = Fin 0, item_v = 0\<rparr>], heap_len = 2\<rparr>
   \<and> heap_inv \<lparr>heap_s = [\<lparr>item_k = Fin 2, item_v = 20\<rparr>, \<lparr>item_k = PInf, item_v = 30\<rparr>,
                       \<lparr>item_k = Fin 1, item_v = 10\<rparr>, \<lparr>item_k = Fin 0, item_v = 0\<rparr>], heap_len = 2\<rparr>"
proof -
  let ?h = "\<lparr>heap_s = [\<lparr>item_k = Fin 1, item_v = 10\<rparr>, \<lparr>item_k = PInf, item_v = 30\<rparr>,
                       \<lparr>item_k = Fin 2, item_v = 20\<rparr>, \<lparr>item_k = Fin 0, item_v = 0\<rparr>], heap_len = 3\<rparr>"
  have 1: "heap_inv ?h"
    by (simp add: heap_inv_def heap_ok_def eval_nat_numeral atLeastLessThanSuc)
  have 2: "heap_no_nan ?h"
    by (simp add: heap_no_nan_def no_nan_def eval_nat_numeral atLeastLessThanSuc)
  have 3: "item_k \<lparr>item_k = Fin 0, item_v = 5\<rparr> \<noteq> NaN" by simp
  have 4: "Heap_Push ?h \<lparr>item_k = Fin 0, item_v = 5\<rparr>
       = Done () \<lparr>heap_s = [\<lparr>item_k = Fin 0, item_v = 5\<rparr>, \<lparr>item_k = Fin 1, item_v = 10\<rparr>,
                       \<lparr>item_k = Fin 2, item_v = 20\<rparr>, \<lparr>item_k = PInf, item_v = 30\<rparr>], heap_len = 4\<rparr>"
    by (simp add: Heap_Push_def up.simps swap_def)
  have 5: "Heap_Pop ?h
       = Done \<lparr>item_k = Fin 1, item_v = 10\<rparr>
           \<lparr>heap_s = [\<lparr>item_k = Fin 2, item_v = 20\<rparr>, \<lparr>item_k = PInf, item_v = 30\<rparr>,
                       \<lparr>item_k = Fin 1, item_v = 10\<rparr>, \<lparr>item_k = Fin 0, item_v = 0\<rparr>], heap_len = 2\<rparr>"
    by (simp add: Heap_Pop_def down.simps swap_def)
  from heap_push_pop [OF 1 2 3]
  show ?thesis
    unfolding 4 5 using 1 2 by simp
qed

text \<open>
  The claim as stated fails for a priority that is NaN, which a rescale by the factor
  \<open>0\<close> makes of the priority \<open>+Inf\<close>: \<open>up\<close> leaves the pushed item where it is, under a
  parent whose priority is not \<open>\<le>\<close> its own.
\<close>

theorem heap_push_nan_counterexample:
  "heap_inv \<lparr>heap_s = [\<lparr>item_k = Fin 0, item_v = 10\<rparr>, \<lparr>item_k = Fin 0, item_v = 20\<rparr>,
                       \<lparr>item_k = PInf, item_v = 30\<rparr>], heap_len = 2\<rparr>
   \<and> Heap_Push \<lparr>heap_s = [\<lparr>item_k = Fin 0, item_v = 10\<rparr>, \<lparr>item_k = Fin 0, item_v = 20\<rparr>,
                          \<lparr>item_k = PInf, item_v = 30\<rparr>], heap_len = 2\<rparr>
         \<lparr>item_k = NaN, item_v = 30\<rparr>
       = Done () \<lparr>heap_s = [\<lparr>item_k = Fin 0, item_v = 10\<rparr>, \<lparr>item_k = Fin 0, item_v = 20\<rparr>,
                             \<lparr>item_k = NaN, item_v = 30\<rparr>], heap_len = 3\<rparr>
   \<and> \<not> heap_inv \<lparr>heap_s = [\<lparr>item_k = Fin 0, item_v = 10\<rparr>, \<lparr>item_k = Fin 0, item_v = 20\<rparr>,
                            \<lparr>item_k = NaN, item_v = 30\<rparr>], heap_len = 3\<rparr>
   \<and> \<not> fle (item_k \<lparr>item_k = Fin 0, item_v = 10\<rparr>) (item_k \<lparr>item_k = NaN, item_v = 30\<rparr>)"
  by (simp add: heap_inv_def heap_ok_def Heap_Push_def up.simps swap_def
      eval_nat_numeral atLeastLessThanSuc)


section \<open>The decaying sample: invariant, rescale, count and size\<close>

declare rescale_loop.simps [simp del]

lemma NewExpDecaySampleFloat64_Done:
  assumes "NewExpDecaySampleFloat64 rt now c alpha = Done s ()" and "0 < c"
  shows "e_inv rt s" and "e_reservoirSize s = c" and "e_count s = 0"
    and "heap_len (e_values s) = 0"
  using assms
  by (auto simp: NewExpDecaySampleFloat64_def newExpDecaySampleHeapFloat64_def e_inv_def
      split: if_splits)

lemma ExpDecay_insert_ok:
  assumes "e_inv rt s"
  shows "\<exists>s1. ExpDecay_insert s t x u = Done () s1 \<and> e_inv rt s1
      \<and> e_count s1 = e_count s + 1
      \<and> heap_len (e_values s1) = min (Suc (heap_len (e_values s))) (nat (e_reservoirSize s))
      \<and> e_reservoirSize s1 = e_reservoirSize s \<and> e_alpha s1 = e_alpha s
      \<and> e_t0 s1 = e_t0 s \<and> e_t1 s1 = e_t1 s"
proof -
  define h where "h = e_values s"
  define y where "y = \<lparr>item_k = fdiv (math_Exp (fmul (Fin (Seconds (t - e_t0 s))) (Fin (e_alpha s))))
                                   (Fin u),
                        item_v = x\<rparr>"
  have ye: "\<lparr>item_k = fdiv (math_Exp (round_fin (Seconds (t - e_t0 s) * e_alpha s))) (Fin u),
             item_v = x\<rparr> = y"
    by (simp add: y_def)
  from assms have c: "0 < e_reservoirSize s" and cap: "length (heap_s h) = nat (e_reservoirSize s)"
    and le: "heap_len h \<le> length (heap_s h)" and t: "e_t1 s = e_t0 s + rt"
    by (simp_all add: e_inv_def h_def)
  show ?thesis
  proof (cases "int (heap_len h) = e_reservoirSize s")
    case True
    then have pos: "0 < heap_len h" using c by simp
    from Heap_Pop_done [OF pos le] obtain z h1 where
      pop: "Heap_Pop h = Done z h1"
      and l1: "heap_len h1 = heap_len h - 1" and c1: "length (heap_s h1) = length (heap_s h)"
      by blast
    have room: "heap_len h1 < length (heap_s h1)" using l1 c1 pos le by simp
    from Heap_Push_done [OF room, of y] obtain h2 where
      push: "Heap_Push h1 y = Done () h2"
      and l2: "heap_len h2 = Suc (heap_len h1)" and c2: "length (heap_s h2) = length (heap_s h1)"
      by blast
    have "ExpDecay_insert s t x u = Done () (s\<lparr>e_count := e_count s + 1, e_values := h2\<rparr>)"
      using True pop push
      by (simp add: ExpDecay_insert_def Let_def Heap_Size_def ye flip: h_def)
    then show ?thesis
      using l2 l1 c2 c1 cap c t True pos le
      by (auto simp add: e_inv_def simp flip: h_def)
  next
    case False
    then have room: "heap_len h < length (heap_s h)" using le cap c by linarith
    from Heap_Push_done [OF room, of y] obtain h2 where
      push: "Heap_Push h y = Done () h2"
      and l2: "heap_len h2 = Suc (heap_len h)" and c2: "length (heap_s h2) = length (heap_s h)"
      by blast
    have "ExpDecay_insert s t x u = Done () (s\<lparr>e_count := e_count s + 1, e_values := h2\<rparr>)"
      using False push
      by (simp add: ExpDecay_insert_def Let_def Heap_Size_def ye flip: h_def)
    then show ?thesis
      using l2 c2 cap c t room le
      by (auto simp add: e_inv_def simp flip: h_def)
  qed
qed

lemma rescale_loop_ok:
  assumes "heap_len h = i" and "i \<le> n" and "n \<le> length (heap_s h)"
  shows "\<exists>h'. rescale_loop c h i n = Done () h' \<and> heap_len h' = n
      \<and> length (heap_s h') = length (heap_s h)
      \<and> mset (Heap_Values h')
          = mset (Heap_Values h)
            + image_mset (scale_item c) (mset (take (n - i) (drop i (heap_s h))))"
  using assms
proof (induction c h i n rule: rescale_loop.induct)
  case (1 c h i n)
  show ?case
  proof (cases "i < n")
    case False
    with "1.prems" show ?thesis
      by (subst rescale_loop.simps) simp
  next
    case True
    define y where "y = (heap_s h ! i)\<lparr>item_k := fmul (item_k (heap_s h ! i)) c\<rparr>"
    have ys: "y = scale_item c (heap_s h ! i)" by (simp add: y_def scale_item_def)
    have room: "heap_len h < length (heap_s h)" using True "1.prems" by simp
    from Heap_Push_done [OF room, of y] obtain h1 where
      push: "Heap_Push h y = Done () h1"
      and l1: "heap_len h1 = Suc i" and c1: "length (heap_s h1) = length (heap_s h)"
      and m1: "mset (Heap_Values h1) = add_mset y (mset (Heap_Values h))"
      and d1: "drop (Suc i) (heap_s h1) = drop (Suc i) (heap_s h)"
      using "1.prems"(1) by auto
    have "\<exists>h'. rescale_loop c h1 (Suc i) n = Done () h' \<and> heap_len h' = n
      \<and> length (heap_s h') = length (heap_s h1)
      \<and> mset (Heap_Values h')
          = mset (Heap_Values h1)
            + image_mset (scale_item c) (mset (take (n - Suc i) (drop (Suc i) (heap_s h1))))"
      using "1.IH" [OF True _ l1] push True "1.prems"(3) c1
      by (simp add: y_def)
    then obtain h' where r: "rescale_loop c h1 (Suc i) n = Done () h'"
      and l': "heap_len h' = n" and c': "length (heap_s h') = length (heap_s h1)"
      and m': "mset (Heap_Values h')
          = mset (Heap_Values h1)
            + image_mset (scale_item c) (mset (take (n - Suc i) (drop (Suc i) (heap_s h1))))"
      by blast
    have il: "i < length (heap_s h)" using True "1.prems"(3) by simp
    have "take (n - i) (drop i (heap_s h))
        = heap_s h ! i # take (n - Suc i) (drop (Suc i) (heap_s h))"
    proof -
      have "n - i = Suc (n - Suc i)" using True by simp
      moreover have "drop i (heap_s h) = heap_s h ! i # drop (Suc i) (heap_s h)"
        using il by (simp add: Cons_nth_drop_Suc)
      ultimately show ?thesis by simp
    qed
    then have m: "mset (Heap_Values h')
          = mset (Heap_Values h)
            + image_mset (scale_item c) (mset (take (n - i) (drop i (heap_s h))))"
      using m' m1 d1 by (simp add: ys)
    have "rescale_loop c h i n = Done () h'"
      using True push r by (subst rescale_loop.simps) (simp add: y_def)
    then show ?thesis using l' c' c1 m by simp
  qed
qed

lemma rescale_ok:
  assumes "e_inv rt s"
  shows "\<exists>s'. rescale rt s t = Done () s' \<and> e_inv rt s'
      \<and> e_t0 s' = t \<and> e_t1 s' = t + rt
      \<and> e_count s' = e_count s \<and> e_reservoirSize s' = e_reservoirSize s
      \<and> e_alpha s' = e_alpha s
      \<and> heap_len (e_values s') = heap_len (e_values s)
      \<and> mset (Heap_Values (e_values s'))
          = image_mset
              (scale_item (math_Exp (fmul (Fin (- e_alpha s)) (Fin (Seconds (t - e_t0 s))))))
              (mset (Heap_Values (e_values s)))"
proof -
  define h where "h = e_values s"
  define n where "n = heap_len h"
  define c where "c = math_Exp (fmul (Fin (- e_alpha s)) (Fin (Seconds (t - e_t0 s))))"
  from assms have r: "0 < e_reservoirSize s" and cap: "length (heap_s h) = nat (e_reservoirSize s)"
    and nl: "n \<le> length (heap_s h)"
    by (simp_all add: e_inv_def h_def n_def)
  from rescale_loop_ok [of "Heap_Clear h" 0 n c] nl obtain h' where
    l: "rescale_loop c (Heap_Clear h) 0 n = Done () h'"
    and l': "heap_len h' = n" and c': "length (heap_s h') = length (heap_s h)"
    and m': "mset (Heap_Values h')
          = mset (Heap_Values (Heap_Clear h))
            + image_mset (scale_item c) (mset (take n (heap_s (Heap_Clear h))))"
    by (auto simp: Heap_Clear_def)
  have ce: "math_Exp (round_fin (- (e_alpha s * Seconds (t - e_t0 s)))) = c"
    by (simp add: c_def)
  have "rescale rt s t
      = Done () (s\<lparr>e_values := h', e_t0 := t, e_t1 := t + rt\<rparr>)"
    using l by (simp add: rescale_def Let_def ce flip: h_def n_def)
  then show ?thesis
    using l' c' m' cap r nl
    by (simp add: e_inv_def Heap_Values_def Heap_Clear_def ce flip: h_def n_def)
qed

lemma ExpDecay_update_ok:
  assumes "e_inv rt s"
  shows "\<exists>s'. ExpDecay_update rt s t x u = Done () s' \<and> e_inv rt s'
      \<and> e_count s' = e_count s + 1
      \<and> heap_len (e_values s') = min (Suc (heap_len (e_values s))) (nat (e_reservoirSize s))
      \<and> e_reservoirSize s' = e_reservoirSize s"
proof -
  from ExpDecay_insert_ok [OF assms, of t x u] obtain s1 where
    i: "ExpDecay_insert s t x u = Done () s1" and i1: "e_inv rt s1"
    and c1: "e_count s1 = e_count s + 1"
    and l1: "heap_len (e_values s1) = min (Suc (heap_len (e_values s))) (nat (e_reservoirSize s))"
    and r1: "e_reservoirSize s1 = e_reservoirSize s"
    by blast
  show ?thesis
  proof (cases "t > e_t1 s1")
    case True
    from rescale_ok [OF i1, of t] show ?thesis
      using i True c1 l1 r1 by (auto simp: ExpDecay_update_def)
  next
    case False
    then show ?thesis
      using i i1 c1 l1 r1 by (simp add: ExpDecay_update_def)
  qed
qed

lemma e_inv_Clear:
  assumes "e_inv rt s"
  shows "e_inv rt (ExpDecay_Clear rt now s)"
  using assms
  by (simp add: e_inv_def ExpDecay_Clear_def Heap_Clear_def)

lemma decay_count_size:
  assumes "e_inv rt s" and "e_count s = word_of_nat n"
    and "heap_len (e_values s) = min n (nat (e_reservoirSize s))"
  shows "\<exists>s'. ExpDecay_run rt s ops = Done () s' \<and> e_inv rt s'
      \<and> e_count s' = word_of_nat (e_updates n ops)
      \<and> heap_len (e_values s') = min (e_updates n ops) (nat (e_reservoirSize s))
      \<and> e_reservoirSize s' = e_reservoirSize s"
  using assms
proof (induction ops arbitrary: s n)
  case Nil
  then show ?case by simp
next
  case (Cons op ops)
  show ?case
  proof (cases op)
    case (E_Update t x u)
    from ExpDecay_update_ok [OF Cons.prems(1), of t x u] obtain s1 where
      1: "ExpDecay_update rt s t x u = Done () s1" and i1: "e_inv rt s1"
      and c1: "e_count s1 = e_count s + 1"
      and l1: "heap_len (e_values s1) = min (Suc (heap_len (e_values s))) (nat (e_reservoirSize s))"
      and r1: "e_reservoirSize s1 = e_reservoirSize s"
      by blast
    have c: "e_count s1 = word_of_nat (Suc n)" using c1 Cons.prems(2) by simp
    have l: "heap_len (e_values s1) = min (Suc n) (nat (e_reservoirSize s1))"
      using l1 r1 Cons.prems(3) by (simp add: min_def)
    from Cons.IH [OF i1 c l] show ?thesis
      by (simp add: E_Update 1 r1)
  next
    case (E_Clear now)
    have i1: "e_inv rt (ExpDecay_Clear rt now s)" using Cons.prems(1) by (rule e_inv_Clear)
    have c: "e_count (ExpDecay_Clear rt now s) = word_of_nat 0"
      by (simp add: ExpDecay_Clear_def)
    have l: "heap_len (e_values (ExpDecay_Clear rt now s))
        = min 0 (nat (e_reservoirSize (ExpDecay_Clear rt now s)))"
      by (simp add: ExpDecay_Clear_def Heap_Clear_def)
    from Cons.IH [OF i1 c l] show ?thesis
      by (simp add: E_Clear) (simp add: ExpDecay_Clear_def)
  qed
qed

lemma e_updates_le: "e_updates n ops \<le> n + length ops"
proof (induction ops arbitrary: n)
  case Nil
  then show ?case by simp
next
  case (Cons op ops)
  show ?case
  proof (cases op)
    case (E_Update t x u)
    then show ?thesis using Cons.IH [of "Suc n"] by simp
  next
    case (E_Clear now)
    then show ?thesis using Cons.IH [of 0] by simp
  qed
qed

lemma decay_reachable:
  assumes "NewExpDecaySampleFloat64 rt now c alpha = Done s0 ()" and "0 < c"
    and "ExpDecay_run rt s0 ops = Done () s"
  shows "e_inv rt s" and "e_reservoirSize s = c"
proof -
  note n = NewExpDecaySampleFloat64_Done [OF assms(1,2)]
  from decay_count_size [OF n(1), of 0 ops] n assms(3)
  show "e_inv rt s" and "e_reservoirSize s = c" by auto
qed

text \<open>
  Claim C7. After any calls of \<open>Update\<close> and \<open>Clear\<close> on a constructed sample, \<open>Count()\<close>
  is the number \<open>N\<close> of \<open>Update\<close> calls since the last \<open>Clear\<close> and \<open>Size()\<close> is
  \<open>min N capacity\<close>, so at most the capacity; this holds for the uniform sample (whose
  draws are not negative) and for the decaying sample of positive reservoir size, and no
  call panics. \<open>Count()\<close> is an \<open>int64\<close>; the calls are fewer than \<open>2 ^ 63\<close>.
\<close>

theorem count_and_size:
  assumes "NewUniformSampleFloat64 w0 c = Done s0 w1"
    and "\<forall>op \<in> set ops. u_draw_ok op" and "length ops < 2 ^ 63"
    and "NewExpDecaySampleFloat64 rt now ce alpha = Done e0 ()" and "0 < ce"
    and "length eops < 2 ^ 63"
  shows "(\<exists>s w. Uniform_run (s0, w1) ops = Done () (s, w)
            \<and> Uniform_Count s = int (u_updates 0 ops)
            \<and> Uniform_Size s = min (int (u_updates 0 ops)) c
            \<and> Uniform_Size s \<le> c)
       \<and> (\<exists>e. ExpDecay_run rt e0 eops = Done () e
            \<and> ExpDecay_Count e = int (e_updates 0 eops)
            \<and> ExpDecay_Size e = min (int (e_updates 0 eops)) ce
            \<and> ExpDecay_Size e \<le> ce)"
proof -
  note n = NewUniformSampleFloat64_Done [OF assms(1)]
  have c0: "0 \<le> c" using n(1,2) by (simp add: u_inv_def)
  have "\<exists>sw'. Uniform_run (s0, w1) ops = Done () sw'
      \<and> u_count (fst sw') = word_of_nat (u_updates 0 ops)
      \<and> len (u_values (fst sw')) = min (u_updates 0 ops) (nat (u_reservoirSize (fst (s0, w1))))"
    using assms(2,3) n by (intro uniform_count_size) simp_all
  then obtain s w where u: "Uniform_run (s0, w1) ops = Done () (s, w)"
    and uc: "u_count s = word_of_nat (u_updates 0 ops)"
    and ul: "len (u_values s) = min (u_updates 0 ops) (nat c)"
    using n(2) by auto
  have "u_updates 0 ops < 2 ^ 63" using u_updates_le [of 0 ops] assms(3) by simp
  then have 1: "Uniform_Count s = int (u_updates 0 ops)"
    by (simp add: Uniform_Count_def uc sint_count)
  have 2: "Uniform_Size s = min (int (u_updates 0 ops)) c"
    using c0 unfolding Uniform_Size_def ul min_def by (auto simp: nat_le_iff le_nat_iff)
  note m = NewExpDecaySampleFloat64_Done [OF assms(4,5)]
  from decay_count_size [OF m(1), of 0 eops] m obtain e where
    d: "ExpDecay_run rt e0 eops = Done () e"
    and dc: "e_count e = word_of_nat (e_updates 0 eops)"
    and dl: "heap_len (e_values e) = min (e_updates 0 eops) (nat ce)"
    by auto
  have "e_updates 0 eops < 2 ^ 63" using e_updates_le [of 0 eops] assms(6) by simp
  then have 3: "ExpDecay_Count e = int (e_updates 0 eops)"
    by (simp add: ExpDecay_Count_def dc sint_count)
  have 4: "ExpDecay_Size e = min (int (e_updates 0 eops)) ce"
    using assms(5) unfolding ExpDecay_Size_def Heap_Size_def dl min_def
    by (auto simp: nat_le_iff le_nat_iff)
  show ?thesis
    using u 1 2 d 3 4 by simp
qed
theorem count_and_size_witness:
  "NewUniformSampleFloat64 \<lparr>mem = (\<lambda>a. []), nxt = 0\<rparr> 2
     = Done \<lparr>u_count = 0, u_reservoirSize = 2, u_values = \<lparr>base = 0, len = 0\<rparr>\<rparr>
         \<lparr>mem = (\<lambda>a. [])(0 := [0, 0]), nxt = 1\<rparr>
   \<and> list_all u_draw_ok [U_Update 5 0, U_Clear, U_Update 7 0, U_Update 8 0, U_Update 9 1]
   \<and> length [U_Update 5 0, U_Clear, U_Update 7 0, U_Update 8 0, U_Update 9 1] < 2 ^ 63
   \<and> NewExpDecaySampleFloat64 1000000000 0 2 1
     = Done \<lparr>e_alpha = 1, e_count = 0, e_reservoirSize = 2, e_t0 = 0, e_t1 = 1000000000,
             e_values = \<lparr>heap_s = [\<lparr>item_k = Fin 0, item_v = 0\<rparr>, \<lparr>item_k = Fin 0, item_v = 0\<rparr>],
                         heap_len = 0\<rparr>\<rparr> ()
   \<and> (0::int) < 2
   \<and> length [E_Update 0 5 (1/2), E_Clear 5, E_Update 5 6 (1/2)] < 2 ^ 63
   \<and> (\<exists>s w. Uniform_run (\<lparr>u_count = 0, u_reservoirSize = 2, u_values = \<lparr>base = 0, len = 0\<rparr>\<rparr>,
                            \<lparr>mem = (\<lambda>a. [])(0 := [0, 0]), nxt = 1\<rparr>)
               [U_Update 5 0, U_Clear, U_Update 7 0, U_Update 8 0, U_Update 9 1] = Done () (s, w)
          \<and> Uniform_Count s = 3 \<and> Uniform_Size s = 2)
   \<and> (\<exists>e. ExpDecay_run 1000000000
               \<lparr>e_alpha = 1, e_count = 0, e_reservoirSize = 2, e_t0 = 0, e_t1 = 1000000000,
                e_values = \<lparr>heap_s = [\<lparr>item_k = Fin 0, item_v = 0\<rparr>, \<lparr>item_k = Fin 0, item_v = 0\<rparr>],
                            heap_len = 0\<rparr>\<rparr>
               [E_Update 0 5 (1/2), E_Clear 5, E_Update 5 6 (1/2)] = Done () e
          \<and> ExpDecay_Count e = 1 \<and> ExpDecay_Size e = 1)"
proof -
  have 1: "NewUniformSampleFloat64 \<lparr>mem = (\<lambda>a. []), nxt = 0\<rparr> 2
     = Done \<lparr>u_count = 0, u_reservoirSize = 2, u_values = \<lparr>base = 0, len = 0\<rparr>\<rparr>
         \<lparr>mem = (\<lambda>a. [])(0 := [0, 0]), nxt = 1\<rparr>"
    by (simp add: NewUniformSampleFloat64_def make_float64_def numeral_2_eq_2)
  have 2: "\<forall>op \<in> set [U_Update 5 0, U_Clear, U_Update 7 0, U_Update 8 0, U_Update 9 1].
            u_draw_ok op"
    by simp
  have 3: "length [U_Update 5 0, U_Clear, U_Update 7 0, U_Update 8 0, U_Update 9 1] < 2 ^ 63"
    by simp
  have 4: "NewExpDecaySampleFloat64 1000000000 0 2 1
     = Done \<lparr>e_alpha = 1, e_count = 0, e_reservoirSize = 2, e_t0 = 0, e_t1 = 1000000000,
             e_values = \<lparr>heap_s = [\<lparr>item_k = Fin 0, item_v = 0\<rparr>, \<lparr>item_k = Fin 0, item_v = 0\<rparr>],
                         heap_len = 0\<rparr>\<rparr> ()"
    by (simp add: NewExpDecaySampleFloat64_def newExpDecaySampleHeapFloat64_def numeral_2_eq_2)
  have 5: "(0::int) < 2" by simp
  have 6: "length [E_Update 0 5 (1/2), E_Clear 5, E_Update 5 6 (1/2)] < 2 ^ 63"
    by simp
  have u3: "u_updates 0 [U_Update 5 0, U_Clear, U_Update 7 0, U_Update 8 0, U_Update 9 1] = 3"
    and e1: "e_updates 0 [E_Update 0 5 (1/2), E_Clear 5, E_Update 5 6 (1/2)] = 1"
    by simp_all
  from count_and_size [OF 1 2 3 4 5 6, unfolded u3 e1]
  obtain s w e where
    a: "Uniform_run (\<lparr>u_count = 0, u_reservoirSize = 2, u_values = \<lparr>base = 0, len = 0\<rparr>\<rparr>,
                            \<lparr>mem = (\<lambda>a. [])(0 := [0, 0]), nxt = 1\<rparr>)
               [U_Update 5 0, U_Clear, U_Update 7 0, U_Update 8 0, U_Update 9 1] = Done () (s, w)"
    and b: "Uniform_Count s = int 3" and c: "Uniform_Size s = min (int 3) 2"
    and d: "ExpDecay_run 1000000000
               \<lparr>e_alpha = 1, e_count = 0, e_reservoirSize = 2, e_t0 = 0, e_t1 = 1000000000,
                e_values = \<lparr>heap_s = [\<lparr>item_k = Fin 0, item_v = 0\<rparr>, \<lparr>item_k = Fin 0, item_v = 0\<rparr>],
                            heap_len = 0\<rparr>\<rparr>
               [E_Update 0 5 (1/2), E_Clear 5, E_Update 5 6 (1/2)] = Done () e"
    and f: "ExpDecay_Count e = int 1" and g: "ExpDecay_Size e = min (int 1) 2"
    by blast
  have b': "Uniform_Count s = 3" and c': "Uniform_Size s = 2"
    and f': "ExpDecay_Count e = 1" and g': "ExpDecay_Size e = 1"
    using b c f g by simp_all
  have 7: "\<exists>s w. Uniform_run (\<lparr>u_count = 0, u_reservoirSize = 2, u_values = \<lparr>base = 0, len = 0\<rparr>\<rparr>,
                            \<lparr>mem = (\<lambda>a. [])(0 := [0, 0]), nxt = 1\<rparr>)
               [U_Update 5 0, U_Clear, U_Update 7 0, U_Update 8 0, U_Update 9 1] = Done () (s, w)
          \<and> Uniform_Count s = 3 \<and> Uniform_Size s = 2"
    using a b' c' by blast
  have 8: "\<exists>e. ExpDecay_run 1000000000
               \<lparr>e_alpha = 1, e_count = 0, e_reservoirSize = 2, e_t0 = 0, e_t1 = 1000000000,
                e_values = \<lparr>heap_s = [\<lparr>item_k = Fin 0, item_v = 0\<rparr>, \<lparr>item_k = Fin 0, item_v = 0\<rparr>],
                            heap_len = 0\<rparr>\<rparr>
               [E_Update 0 5 (1/2), E_Clear 5, E_Update 5 6 (1/2)] = Done () e
          \<and> ExpDecay_Count e = 1 \<and> ExpDecay_Size e = 1"
    using d f' g' by blast
  have dr: "list_all u_draw_ok [U_Update 5 0, U_Clear, U_Update 7 0, U_Update 8 0, U_Update 9 1]"
    by simp
  show ?thesis
    by (intro conjI 1 dr 3 4 5 6 7 8)
qed


section \<open>The decaying sample: rescale\<close>

lemma round_fin_mid: "1 \<le> \<bar>r\<bar> \<Longrightarrow> \<bar>r\<bar> \<le> 10 ^ 15 \<Longrightarrow> round_fin r = Fin r"
proof -
  assume a: "1 \<le> \<bar>r\<bar>" "\<bar>r\<bar> \<le> 10 ^ 15"
  have 1: "(10::real) ^ 15 < 2 ^ 1024 - 2 ^ 970" by simp
  have 2: "(1::real) / 2 ^ 1075 < 1" by simp
  show ?thesis
    using a 1 2 unfolding round_fin_def by (auto simp: abs_if split: if_splits)
qed

lemma round_fin_0: "round_fin 0 = Fin 0"
  by (simp add: round_fin_def)

lemma round_fin_mono: "r \<le> r' \<Longrightarrow> fle (round_fin r) (round_fin r')"
proof -
  assume a: "r \<le> r'"
  have 1: "(0::real) < 2 ^ 1024 - 2 ^ 970" by simp
  have 2: "(0::real) < 1 / 2 ^ 1075" by simp
  show ?thesis
    using a 1 2 unfolding round_fin_def by (auto simp: abs_if split: if_splits)
qed

lemma round_fin_not_NaN: "round_fin r \<noteq> NaN"
  by (simp add: round_fin_def)

lemma fmul_mono:
  assumes "fle a b" and "0 < f"
  shows "fle (fmul a (Fin f)) (fmul b (Fin f))"
proof -
  have 1: "fle (round_fin x) PInf" for x by (simp add: round_fin_def)
  have 2: "fle NInf (round_fin x)" for x by (simp add: round_fin_def)
  show ?thesis
    using assms
    by (cases a; cases b) (simp_all add: round_fin_mono 1 2)
qed


text \<open>
  Claim C3, as the code has it. Let \<open>s\<close> be a state that a decaying sample of positive
  reservoir size reaches, and \<open>t\<close> a time after its deadline \<open>t1\<close>. Then \<open>update\<close> at \<open>t\<close>
  returns, and after the new item is in the heap (state \<open>s1\<close>) it rescales: in the final
  state \<open>s'\<close> the epoch start \<open>t0\<close> is \<open>t\<close>, the deadline is \<open>t0\<close> plus the rescale
  threshold (as it was in \<open>s\<close>), and the items of the heap are the items of \<open>s1\<close>, each
  with its priority multiplied, as float64, by the factor
  \<open>math.Exp(- alpha * seconds (t - old t0))\<close>: as many items and the same multiset of
  values. When the factor is a positive number, two priorities of \<open>s1\<close> in the order
  \<open>\<le>\<close> are in that order after the multiplication.
\<close>

theorem rescale_on_update:
  assumes "NewExpDecaySampleFloat64 rt now c alpha = Done s0 ()" and "0 < c"
    and "ExpDecay_run rt s0 ops = Done () s"
    and "e_t1 s < t"
  shows "\<exists>s1 s'. ExpDecay_insert s t x u = Done () s1
      \<and> ExpDecay_update rt s t x u = Done () s'
      \<and> e_t0 s' = t \<and> e_t1 s' = e_t0 s' + rt \<and> e_t1 s = e_t0 s + rt
      \<and> mset (Heap_Values (e_values s'))
          = image_mset
              (scale_item (math_Exp (fmul (Fin (- e_alpha s)) (Fin (Seconds (t - e_t0 s))))))
              (mset (Heap_Values (e_values s1)))
      \<and> image_mset item_v (mset (Heap_Values (e_values s')))
          = image_mset item_v (mset (Heap_Values (e_values s1)))
      \<and> Heap_Size (e_values s') = Heap_Size (e_values s1)
      \<and> (\<forall>f. math_Exp (fmul (Fin (- e_alpha s)) (Fin (Seconds (t - e_t0 s)))) = Fin f \<and> 0 < f
            \<longrightarrow> (\<forall>a \<in> set (Heap_Values (e_values s1)). \<forall>b \<in> set (Heap_Values (e_values s1)).
                   fle (item_k a) (item_k b) \<longrightarrow>
                   scale_item (Fin f) a \<in> set (Heap_Values (e_values s'))
                   \<and> scale_item (Fin f) b \<in> set (Heap_Values (e_values s'))
                   \<and> fle (item_k (scale_item (Fin f) a)) (item_k (scale_item (Fin f) b))))"
proof -
  define F where "F = math_Exp (fmul (Fin (- e_alpha s)) (Fin (Seconds (t - e_t0 s))))"
  note i = decay_reachable(1) [OF assms(1,2,3)]
  from ExpDecay_insert_ok [OF i, of t x u] obtain s1 where
    1: "ExpDecay_insert s t x u = Done () s1" and i1: "e_inv rt s1"
    and a1: "e_alpha s1 = e_alpha s" and t0: "e_t0 s1 = e_t0 s" and t1: "e_t1 s1 = e_t1 s"
    by blast
  from rescale_ok [OF i1, of t] obtain s' where
    2: "rescale rt s1 t = Done () s'"
    and e0: "e_t0 s' = t" and e1: "e_t1 s' = t + rt"
    and l: "heap_len (e_values s') = heap_len (e_values s1)"
    and m: "mset (Heap_Values (e_values s')) = image_mset (scale_item F) (mset (Heap_Values (e_values s1)))"
    by (auto simp: a1 t0 F_def)
  have u: "ExpDecay_update rt s t x u = Done () s'"
    using 1 2 assms(4) t1 by (simp add: ExpDecay_update_def)
  have v: "image_mset item_v (mset (Heap_Values (e_values s')))
          = image_mset item_v (mset (Heap_Values (e_values s1)))"
    unfolding m by (simp add: image_mset.compositionality comp_def scale_item_def)
  have st: "set (Heap_Values (e_values s')) = scale_item F ` set (Heap_Values (e_values s1))"
    using arg_cong [OF m, of set_mset] by simp
  have o: "\<forall>f. F = Fin f \<and> 0 < f
            \<longrightarrow> (\<forall>a \<in> set (Heap_Values (e_values s1)). \<forall>b \<in> set (Heap_Values (e_values s1)).
                   fle (item_k a) (item_k b) \<longrightarrow>
                   scale_item (Fin f) a \<in> set (Heap_Values (e_values s'))
                   \<and> scale_item (Fin f) b \<in> set (Heap_Values (e_values s'))
                   \<and> fle (item_k (scale_item (Fin f) a)) (item_k (scale_item (Fin f) b)))"
    using st by (auto simp: scale_item_def fmul_mono)
  have t: "e_t1 s = e_t0 s + rt" using i by (simp add: e_inv_def)
  show ?thesis
    using 1 u e0 e1 t m v o l
    unfolding F_def by (simp add: Heap_Size_def)
qed

theorem rescale_on_update_witness:
  "NewExpDecaySampleFloat64 1000000000 0 2 1
     = Done \<lparr>e_alpha = 1, e_count = 0, e_reservoirSize = 2, e_t0 = 0, e_t1 = 1000000000,
             e_values = \<lparr>heap_s = [\<lparr>item_k = Fin 0, item_v = 0\<rparr>, \<lparr>item_k = Fin 0, item_v = 0\<rparr>],
                         heap_len = 0\<rparr>\<rparr> ()
   \<and> (0::int) < 2
   \<and> ExpDecay_run 1000000000
         \<lparr>e_alpha = 1, e_count = 0, e_reservoirSize = 2, e_t0 = 0, e_t1 = 1000000000,
          e_values = \<lparr>heap_s = [\<lparr>item_k = Fin 0, item_v = 0\<rparr>, \<lparr>item_k = Fin 0, item_v = 0\<rparr>],
                      heap_len = 0\<rparr>\<rparr>
         [E_Update 0 5 (1/2)]
     = Done () \<lparr>e_alpha = 1, e_count = 1, e_reservoirSize = 2, e_t0 = 0, e_t1 = 1000000000,
                e_values = \<lparr>heap_s = [\<lparr>item_k = Fin 2, item_v = 5\<rparr>, \<lparr>item_k = Fin 0, item_v = 0\<rparr>],
                            heap_len = 1\<rparr>\<rparr>
   \<and> e_t1 \<lparr>e_alpha = 1, e_count = 1, e_reservoirSize = 2, e_t0 = 0, e_t1 = 1000000000,
            e_values = \<lparr>heap_s = [\<lparr>item_k = Fin 2, item_v = 5\<rparr>, \<lparr>item_k = Fin 0, item_v = 0\<rparr>],
                        heap_len = 1\<rparr>\<rparr> < 2000000000
   \<and> math_Exp (fmul (Fin (- 1)) (Fin (Seconds (2000000000 - 0)))) = Fin (exp (- 2))
   \<and> 0 < exp (- 2 :: real)
   \<and> (\<exists>s1 s'.
         ExpDecay_insert
           \<lparr>e_alpha = 1, e_count = 1, e_reservoirSize = 2, e_t0 = 0, e_t1 = 1000000000,
            e_values = \<lparr>heap_s = [\<lparr>item_k = Fin 2, item_v = 5\<rparr>, \<lparr>item_k = Fin 0, item_v = 0\<rparr>],
                        heap_len = 1\<rparr>\<rparr> 2000000000 7 (1/4) = Done () s1
       \<and> ExpDecay_update 1000000000
           \<lparr>e_alpha = 1, e_count = 1, e_reservoirSize = 2, e_t0 = 0, e_t1 = 1000000000,
            e_values = \<lparr>heap_s = [\<lparr>item_k = Fin 2, item_v = 5\<rparr>, \<lparr>item_k = Fin 0, item_v = 0\<rparr>],
                        heap_len = 1\<rparr>\<rparr> 2000000000 7 (1/4) = Done () s'
       \<and> e_t0 s' = 2000000000 \<and> e_t1 s' = 3000000000
       \<and> mset (Heap_Values (e_values s'))
           = image_mset (scale_item (Fin (exp (- 2)))) (mset (Heap_Values (e_values s1)))
       \<and> image_mset item_v (mset (Heap_Values (e_values s')))
           = image_mset item_v (mset (Heap_Values (e_values s1))))"
proof -
  let ?s = "\<lparr>e_alpha = 1, e_count = 1, e_reservoirSize = 2, e_t0 = 0, e_t1 = 1000000000,
            e_values = \<lparr>heap_s = [\<lparr>item_k = Fin 2, item_v = 5\<rparr>, \<lparr>item_k = Fin 0, item_v = 0\<rparr>],
                        heap_len = 1\<rparr>\<rparr>"
  have 1: "NewExpDecaySampleFloat64 1000000000 0 2 1
     = Done \<lparr>e_alpha = 1, e_count = 0, e_reservoirSize = 2, e_t0 = 0, e_t1 = 1000000000,
             e_values = \<lparr>heap_s = [\<lparr>item_k = Fin 0, item_v = 0\<rparr>, \<lparr>item_k = Fin 0, item_v = 0\<rparr>],
                         heap_len = 0\<rparr>\<rparr> ()"
    by (simp add: NewExpDecaySampleFloat64_def newExpDecaySampleHeapFloat64_def numeral_2_eq_2)
  have 2: "(0::int) < 2" by simp
  have 3: "ExpDecay_run 1000000000
         \<lparr>e_alpha = 1, e_count = 0, e_reservoirSize = 2, e_t0 = 0, e_t1 = 1000000000,
          e_values = \<lparr>heap_s = [\<lparr>item_k = Fin 0, item_v = 0\<rparr>, \<lparr>item_k = Fin 0, item_v = 0\<rparr>],
                      heap_len = 0\<rparr>\<rparr>
         [E_Update 0 5 (1/2)]
     = Done () ?s"
    by (simp add: ExpDecay_update_def ExpDecay_insert_def Heap_Size_def Heap_Push_def
        Seconds_def up.simps Let_def round_fin_0 round_fin_mid Exp_Overflow_def
        Exp_Underflow_def)
  have 4: "e_t1 ?s < 2000000000"
    by simp
  have 5: "math_Exp (fmul (Fin (- 1)) (Fin (Seconds (2000000000 - 0)))) = Fin (exp (- 2))"
    by (simp add: Seconds_def round_fin_mid Exp_Overflow_def Exp_Underflow_def)
  have 6: "0 < exp (- 2 :: real)" by simp
  from rescale_on_update [OF 1 2 3 4, of 7 "1/4"]
  obtain s1 s' where
    a: "ExpDecay_insert ?s 2000000000 7 (1/4) = Done () s1"
    and b: "ExpDecay_update 1000000000 ?s 2000000000 7 (1/4) = Done () s'"
    and c: "e_t0 s' = 2000000000" and d: "e_t1 s' = e_t0 s' + 1000000000"
    and e: "mset (Heap_Values (e_values s'))
           = image_mset
              (scale_item (math_Exp (fmul (Fin (- e_alpha ?s)) (Fin (Seconds (2000000000 - e_t0 ?s))))))
              (mset (Heap_Values (e_values s1)))"
    and f: "image_mset item_v (mset (Heap_Values (e_values s')))
           = image_mset item_v (mset (Heap_Values (e_values s1)))"
    by blast
  have d': "e_t1 s' = 3000000000" using c d by simp
  have e': "mset (Heap_Values (e_values s'))
           = image_mset (scale_item (Fin (exp (- 2)))) (mset (Heap_Values (e_values s1)))"
    using e 5 by simp
  have 7: "\<exists>s1 s'.
         ExpDecay_insert ?s 2000000000 7 (1/4) = Done () s1
       \<and> ExpDecay_update 1000000000 ?s 2000000000 7 (1/4) = Done () s'
       \<and> e_t0 s' = 2000000000 \<and> e_t1 s' = 3000000000
       \<and> mset (Heap_Values (e_values s'))
           = image_mset (scale_item (Fin (exp (- 2)))) (mset (Heap_Values (e_values s1)))
       \<and> image_mset item_v (mset (Heap_Values (e_values s')))
           = image_mset item_v (mset (Heap_Values (e_values s1)))"
    using a b c d' e' f by blast
  show ?thesis
    by (intro conjI 1 2 3 4 5 6 7)
qed

text \<open>
  The claim as stated fails. With \<open>alpha = 0.99\<close> and a rescale threshold of one hour,
  an update one microsecond after the deadline gives the new item the priority \<open>+Inf\<close>
  (\<open>math.Exp\<close> overflows) and rescales by the factor \<open>0\<close> (\<open>math.Exp\<close> underflows): the
  priorities \<open>2 < 4\<close> both become \<open>0\<close>, and \<open>+Inf\<close> becomes NaN, so the order of the
  priorities is lost. With reservoir size \<open>0\<close> the update panics before it rescales.
\<close>

theorem rescale_order_counterexample:
  "NewExpDecaySampleFloat64 3600000000000 0 3 (99/100)
     = Done \<lparr>e_alpha = 99/100, e_count = 0, e_reservoirSize = 3, e_t0 = 0, e_t1 = 3600000000000,
             e_values = \<lparr>heap_s = [\<lparr>item_k = Fin 0, item_v = 0\<rparr>, \<lparr>item_k = Fin 0, item_v = 0\<rparr>,
                                    \<lparr>item_k = Fin 0, item_v = 0\<rparr>],
                         heap_len = 0\<rparr>\<rparr> ()
   \<and> ExpDecay_run 3600000000000
         \<lparr>e_alpha = 99/100, e_count = 0, e_reservoirSize = 3, e_t0 = 0, e_t1 = 3600000000000,
          e_values = \<lparr>heap_s = [\<lparr>item_k = Fin 0, item_v = 0\<rparr>, \<lparr>item_k = Fin 0, item_v = 0\<rparr>,
                                 \<lparr>item_k = Fin 0, item_v = 0\<rparr>],
                      heap_len = 0\<rparr>\<rparr>
         [E_Update 0 10 (1/2), E_Update 0 20 (1/4)]
     = Done () \<lparr>e_alpha = 99/100, e_count = 2, e_reservoirSize = 3, e_t0 = 0, e_t1 = 3600000000000,
                e_values = \<lparr>heap_s = [\<lparr>item_k = Fin 2, item_v = 10\<rparr>, \<lparr>item_k = Fin 4, item_v = 20\<rparr>,
                                       \<lparr>item_k = Fin 0, item_v = 0\<rparr>],
                            heap_len = 2\<rparr>\<rparr>
   \<and> (3600000000000::int) < 3600000001000
   \<and> ExpDecay_insert
         \<lparr>e_alpha = 99/100, e_count = 2, e_reservoirSize = 3, e_t0 = 0, e_t1 = 3600000000000,
          e_values = \<lparr>heap_s = [\<lparr>item_k = Fin 2, item_v = 10\<rparr>, \<lparr>item_k = Fin 4, item_v = 20\<rparr>,
                                 \<lparr>item_k = Fin 0, item_v = 0\<rparr>],
                      heap_len = 2\<rparr>\<rparr> 3600000001000 30 (1/2)
     = Done () \<lparr>e_alpha = 99/100, e_count = 3, e_reservoirSize = 3, e_t0 = 0, e_t1 = 3600000000000,
                e_values = \<lparr>heap_s = [\<lparr>item_k = Fin 2, item_v = 10\<rparr>, \<lparr>item_k = Fin 4, item_v = 20\<rparr>,
                                       \<lparr>item_k = PInf, item_v = 30\<rparr>],
                            heap_len = 3\<rparr>\<rparr>
   \<and> ExpDecay_update 3600000000000
         \<lparr>e_alpha = 99/100, e_count = 2, e_reservoirSize = 3, e_t0 = 0, e_t1 = 3600000000000,
          e_values = \<lparr>heap_s = [\<lparr>item_k = Fin 2, item_v = 10\<rparr>, \<lparr>item_k = Fin 4, item_v = 20\<rparr>,
                                 \<lparr>item_k = Fin 0, item_v = 0\<rparr>],
                      heap_len = 2\<rparr>\<rparr> 3600000001000 30 (1/2)
     = Done () \<lparr>e_alpha = 99/100, e_count = 3, e_reservoirSize = 3, e_t0 = 3600000001000,
                e_t1 = 7200000001000,
                e_values = \<lparr>heap_s = [\<lparr>item_k = Fin 0, item_v = 10\<rparr>, \<lparr>item_k = Fin 0, item_v = 20\<rparr>,
                                       \<lparr>item_k = NaN, item_v = 30\<rparr>],
                            heap_len = 3\<rparr>\<rparr>
   \<and> flt (Fin 2) (Fin 4) \<and> \<not> flt (Fin 0) (Fin 0)
   \<and> fle (Fin 4) PInf \<and> \<not> fle (Fin 0) NaN
   \<and> NewExpDecaySampleFloat64 3600000000000 0 0 (99/100)
     = Done \<lparr>e_alpha = 99/100, e_count = 0, e_reservoirSize = 0, e_t0 = 0, e_t1 = 3600000000000,
             e_values = \<lparr>heap_s = [], heap_len = 0\<rparr>\<rparr> ()
   \<and> ExpDecay_update 3600000000000
         \<lparr>e_alpha = 99/100, e_count = 0, e_reservoirSize = 0, e_t0 = 0, e_t1 = 3600000000000,
          e_values = \<lparr>heap_s = [], heap_len = 0\<rparr>\<rparr> 3600000001000 30 (1/2)
     = Panic IndexOutOfRange
         \<lparr>e_alpha = 99/100, e_count = 1, e_reservoirSize = 0, e_t0 = 0, e_t1 = 3600000000000,
          e_values = \<lparr>heap_s = [], heap_len = 0\<rparr>\<rparr>"
proof -
  have a: "round_fin (3600000001 / 1000000 * (99 / 100)) = Fin (3600000001 / 1000000 * (99 / 100))"
    by (rule round_fin_mid) simp_all
  have b: "round_fin (- (99 / 100 * (3600000001 / 1000000)))
      = Fin (- (99 / 100 * (3600000001 / 1000000)))"
    by (rule round_fin_mid) simp_all
  show ?thesis
    by (simp add: NewExpDecaySampleFloat64_def newExpDecaySampleHeapFloat64_def
        ExpDecay_update_def ExpDecay_insert_def rescale_def rescale_loop.simps
        Heap_Size_def Heap_Push_def Heap_Pop_def Heap_Clear_def Seconds_def up.simps Let_def
        round_fin_0 round_fin_mid a b Exp_Overflow_def Exp_Underflow_def
        eval_nat_numeral)
qed

end
